theory Spec2Isabelle
  imports Main
begin

section \<open>Data model (app/models.py)\<close>

text \<open>
  The tables of the meal ordering system. Every persistent class of \<^verbatim>\<open>models.py\<close>
  is a record; a table is the list of its rows in insertion order. Primary and foreign
  keys are Python \<^verbatim>\<open>int\<close>s, modelled as \<^typ>\<open>int\<close>. A \<^verbatim>\<open>Decimal\<close> with two decimal
  places is modelled by its exact value in hundredths (an \<^typ>\<open>int\<close> number of cents), so
  that \<^verbatim>\<open>Decimal("15.99")\<close> is \<open>1599\<close>; products with integers and sums of such values
  are exact. A \<^verbatim>\<open>datetime\<close> is an abstract tick counter (\<^typ>\<open>nat\<close>); the value of
  \<^verbatim>\<open>datetime.utcnow()\<close> is passed to every operation as the argument \<open>now\<close>.
  Field names carry a prefix naming the class (\<open>d_\<close> for Dish, \<open>ci_\<close> for CartItem,
  \<open>o_\<close> for Order, \<open>oi_\<close> for OrderItem, \<open>u_\<close> for User).
\<close>

datatype UserRole = REGULAR | ADMIN

datatype OrderStatus = PENDING | CONFIRMED | PREPARING | READY | COMPLETED | CANCELLED

datatype DeliveryType = PICKUP | DELIVERY

record User =
  u_id :: int
  u_name :: string
  u_email :: string
  u_password_hash :: string
  u_phone :: string
  u_role :: UserRole
  u_department_id :: "int option"
  u_is_active :: bool
  u_created_at :: nat
  u_updated_at :: nat

record Dish =
  d_id :: int
  d_name :: string
  d_price :: int
  d_description :: string
  d_image_url :: "string option"
  d_category :: string
  d_stock_quantity :: int
  d_is_available :: bool
  d_created_at :: nat
  d_updated_at :: nat

record Order =
  o_id :: int
  o_user_id :: int
  o_order_date :: nat
  o_pickup_time :: nat
  o_delivery_type :: DeliveryType
  o_status :: OrderStatus
  o_total_amount :: int
  o_remarks :: "string option"
  o_created_at :: nat
  o_updated_at :: nat

record OrderItem =
  oi_id :: int
  oi_order_id :: int
  oi_dish_id :: int
  oi_quantity :: int
  oi_unit_price :: int
  oi_subtotal :: int

record CartItem =
  ci_id :: int
  ci_user_id :: int
  ci_dish_id :: int
  ci_quantity :: int
  ci_created_at :: nat
  ci_updated_at :: nat

text \<open>The non-persistent schemas that carry the arguments of the services.\<close>

record UserCreate =
  uc_name :: string
  uc_email :: string
  uc_password :: string
  uc_phone :: string
  uc_department_id :: "int option"

record UserLogin =
  ul_email :: string
  ul_password :: string

record DishCreate =
  dc_name :: string
  dc_price :: int
  dc_description :: string
  dc_image_url :: "string option"
  dc_category :: string
  dc_stock_quantity :: int

text \<open>
  A field of \<^verbatim>\<open>DishUpdate\<close> is either not set at all, or set to \<^verbatim>\<open>None\<close>, or set to a
  value: \<^verbatim>\<open>model_dump(exclude_unset=True)\<close> keeps a field that was set explicitly, also
  when it was set to \<^verbatim>\<open>None\<close>.
\<close>

datatype 'a field = Unset | SetTo "'a option"

record DishUpdate =
  du_name :: "string field"
  du_price :: "int field"
  du_description :: "string field"
  du_image_url :: "string field"
  du_category :: "string field"
  du_stock_quantity :: "int field"
  du_is_available :: "bool field"

record OrderCreate =
  oc_pickup_time :: nat
  oc_delivery_type :: DeliveryType
  oc_remarks :: "string option"

record CartItemCreate =
  cic_dish_id :: int
  cic_quantity :: int

text \<open>The database: one list of rows per table.\<close>

record db =
  users :: "User list"
  dishes :: "Dish list"
  orders :: "Order list"
  order_items :: "OrderItem list"
  cart_items :: "CartItem list"

definition empty_db :: db where
  "empty_db = \<lparr>users = [], dishes = [], orders = [], order_items = [], cart_items = []\<rparr>"

text \<open>
  The storage engine assigns the integer primary key of a new row. It is taken to be one
  more than the largest key in the table (and \<open>1\<close> in an empty table), so a new key is
  positive and differs from every key in use.
\<close>

definition next_id :: "int list \<Rightarrow> int" where
  "next_id ids = fold max ids 0 + 1"

datatype error = IntegrityError | StorageFault

section \<open>AuthenticationService\<close>

text \<open>
  \<^verbatim>\<open>hash_password\<close> is SHA-256 from the Python library; the services take the hash
  function as the argument \<open>hash_password\<close>.
\<close>

definition register_user ::
  "(string \<Rightarrow> string) \<Rightarrow> db \<Rightarrow> UserCreate \<Rightarrow> nat \<Rightarrow> User option \<times> db" where
  "register_user hash_password s user_data now =
     (case find (\<lambda>u. u_email u = uc_email user_data) (users s) of
        Some existing_user \<Rightarrow> (None, s)
      | None \<Rightarrow>
          (let user = \<lparr>u_id = next_id (map u_id (users s)),
                       u_name = uc_name user_data,
                       u_email = uc_email user_data,
                       u_password_hash = hash_password (uc_password user_data),
                       u_phone = uc_phone user_data,
                       u_role = REGULAR,
                       u_department_id = uc_department_id user_data,
                       u_is_active = True,
                       u_created_at = now,
                       u_updated_at = now\<rparr>
           in (Some user, s\<lparr>users := users s @ [user]\<rparr>)))"

definition authenticate_user ::
  "(string \<Rightarrow> string) \<Rightarrow> db \<Rightarrow> UserLogin \<Rightarrow> User option" where
  "authenticate_user hash_password s login_data =
     (case find (\<lambda>u. u_email u = ul_email login_data) (users s) of
        Some user \<Rightarrow>
          (if u_password_hash user = hash_password (ul_password login_data)
           then Some user else None)
      | None \<Rightarrow> None)"

definition get_user_by_id :: "db \<Rightarrow> int \<Rightarrow> User option" where
  "get_user_by_id s user_id = find (\<lambda>u. u_id u = user_id) (users s)"

section \<open>DishService\<close>

definition get_dish_by_id :: "db \<Rightarrow> int \<Rightarrow> Dish option" where
  "get_dish_by_id s dish_id = find (\<lambda>d. d_id d = dish_id) (dishes s)"

definition get_available_dishes :: "db \<Rightarrow> Dish list" where
  "get_available_dishes s = filter d_is_available (dishes s)"

definition create_dish :: "db \<Rightarrow> DishCreate \<Rightarrow> nat \<Rightarrow> Dish \<times> db" where
  "create_dish s dish_data now =
     (let dish = \<lparr>d_id = next_id (map d_id (dishes s)),
                  d_name = dc_name dish_data,
                  d_price = dc_price dish_data,
                  d_description = dc_description dish_data,
                  d_image_url = dc_image_url dish_data,
                  d_category = dc_category dish_data,
                  d_stock_quantity = dc_stock_quantity dish_data,
                  d_is_available = True,
                  d_created_at = now,
                  d_updated_at = now\<rparr>
      in (dish, s\<lparr>dishes := dishes s @ [dish]\<rparr>))"

text \<open>
  Writing back a changed row is an \<^verbatim>\<open>UPDATE ... WHERE id = ?\<close>: every row of the table
  with that primary key is replaced.
\<close>

definition update_dish_row :: "int \<Rightarrow> (Dish \<Rightarrow> Dish) \<Rightarrow> db \<Rightarrow> db" where
  "update_dish_row dish_id f s =
     s\<lparr>dishes := map (\<lambda>d. if d_id d = dish_id then f d else d) (dishes s)\<rparr>"

text \<open>
  \<^verbatim>\<open>setattr(dish, field, value)\<close> for the fields of the update that were set; the result
  is the new value of the column, \<open>None\<close> being \<^verbatim>\<open>NULL\<close>.
\<close>

fun setattr :: "'a field \<Rightarrow> 'a option \<Rightarrow> 'a option" where
  "setattr Unset old = old"
| "setattr (SetTo v) old = v"

text \<open>
  Only \<^verbatim>\<open>image_url\<close> is declared \<^verbatim>\<open>Optional\<close> in the table \<^verbatim>\<open>dishes\<close>. The commit of a
  row with \<^verbatim>\<open>NULL\<close> in one of the other columns is refused by the storage engine; the
  exception leaves the session without a commit, so the database is unchanged.
\<close>

definition update_dish ::
  "db \<Rightarrow> int \<Rightarrow> DishUpdate \<Rightarrow> nat \<Rightarrow> (error + Dish option) \<times> db" where
  "update_dish s dish_id dish_data now =
     (case get_dish_by_id s dish_id of
        None \<Rightarrow> (Inr None, s)
      | Some dish \<Rightarrow>
          (let name = setattr (du_name dish_data) (Some (d_name dish));
               price = setattr (du_price dish_data) (Some (d_price dish));
               description = setattr (du_description dish_data) (Some (d_description dish));
               image_url = setattr (du_image_url dish_data) (d_image_url dish);
               category = setattr (du_category dish_data) (Some (d_category dish));
               stock_quantity =
                 setattr (du_stock_quantity dish_data) (Some (d_stock_quantity dish));
               is_available = setattr (du_is_available dish_data) (Some (d_is_available dish))
           in if name = None \<or> price = None \<or> description = None \<or> category = None
                 \<or> stock_quantity = None \<or> is_available = None
              then (Inl IntegrityError, s)
              else
                (let upd = (\<lambda>d. d\<lparr>d_name := the name,
                                     d_price := the price,
                                     d_description := the description,
                                     d_image_url := image_url,
                                     d_category := the category,
                                     d_stock_quantity := the stock_quantity,
                                     d_is_available := the is_available,
                                     d_updated_at := now\<rparr>)
                 in (Inr (Some (upd dish)), update_dish_row dish_id upd s))))"

definition delete_dish :: "db \<Rightarrow> int \<Rightarrow> nat \<Rightarrow> bool \<times> db" where
  "delete_dish s dish_id now =
     (case get_dish_by_id s dish_id of
        None \<Rightarrow> (False, s)
      | Some dish \<Rightarrow>
          (True, update_dish_row dish_id
                   (\<lambda>d. d\<lparr>d_is_available := False, d_updated_at := now\<rparr>) s))"

section \<open>CartService\<close>

definition get_cart_items :: "db \<Rightarrow> int \<Rightarrow> CartItem list" where
  "get_cart_items s user_id = filter (\<lambda>c. ci_user_id c = user_id) (cart_items s)"

definition update_cart_row :: "int \<Rightarrow> (CartItem \<Rightarrow> CartItem) \<Rightarrow> db \<Rightarrow> db" where
  "update_cart_row item_id f s =
     s\<lparr>cart_items := map (\<lambda>c. if ci_id c = item_id then f c else c) (cart_items s)\<rparr>"

text \<open>\<^verbatim>\<open>session.delete(item)\<close> is a \<^verbatim>\<open>DELETE ... WHERE id = ?\<close> with the key of the item.\<close>

definition session_delete :: "CartItem \<Rightarrow> db \<Rightarrow> db" where
  "session_delete item s =
     s\<lparr>cart_items := filter (\<lambda>c. ci_id c \<noteq> ci_id item) (cart_items s)\<rparr>"

definition add_to_cart ::
  "db \<Rightarrow> int \<Rightarrow> CartItemCreate \<Rightarrow> nat \<Rightarrow> CartItem option \<times> db" where
  "add_to_cart s user_id cart_data now =
     (case get_dish_by_id s (cic_dish_id cart_data) of
        None \<Rightarrow> (None, s)
      | Some dish \<Rightarrow>
          if \<not> d_is_available dish \<or> d_stock_quantity dish < cic_quantity cart_data
          then (None, s)
          else
            (case find (\<lambda>c. ci_user_id c = user_id \<and> ci_dish_id c = cic_dish_id cart_data)
                    (cart_items s) of
               Some existing_item \<Rightarrow>
                 (let new_quantity = ci_quantity existing_item + cic_quantity cart_data
                  in if new_quantity > d_stock_quantity dish then (None, s)
                     else
                       (let upd = (\<lambda>c. c\<lparr>ci_quantity := new_quantity, ci_updated_at := now\<rparr>)
                        in (Some (upd existing_item),
                            update_cart_row (ci_id existing_item) upd s)))
             | None \<Rightarrow>
                 (let cart_item = \<lparr>ci_id = next_id (map ci_id (cart_items s)),
                                   ci_user_id = user_id,
                                   ci_dish_id = cic_dish_id cart_data,
                                   ci_quantity = cic_quantity cart_data,
                                   ci_created_at = now,
                                   ci_updated_at = now\<rparr>
                  in (Some cart_item, s\<lparr>cart_items := cart_items s @ [cart_item]\<rparr>))))"

definition clear_cart :: "db \<Rightarrow> int \<Rightarrow> bool \<times> db" where
  "clear_cart s user_id = (True, fold session_delete (get_cart_items s user_id) s)"

fun cart_total_loop :: "db \<Rightarrow> CartItem list \<Rightarrow> int \<Rightarrow> int" where
  "cart_total_loop s [] total_acc = total_acc"
| "cart_total_loop s (item # items) total_acc =
     (case get_dish_by_id s (ci_dish_id item) of
        Some dish \<Rightarrow> cart_total_loop s items (total_acc + d_price dish * ci_quantity item)
      | None \<Rightarrow> cart_total_loop s items total_acc)"

definition get_cart_total :: "db \<Rightarrow> int \<Rightarrow> int" where
  "get_cart_total s user_id = cart_total_loop s (get_cart_items s user_id) 0"

section \<open>OrderService\<close>

text \<open>The dictionaries collected in \<^verbatim>\<open>order_items_data\<close>.\<close>

record item_data =
  it_dish_id :: int
  it_quantity :: int
  it_unit_price :: int
  it_subtotal :: int

text \<open>
  The first loop of \<^verbatim>\<open>create_order_from_cart\<close>: every cart line is checked against the
  dish as it is now, and the total and the order lines are accumulated. \<open>None\<close> is the
  early \<^verbatim>\<open>return None\<close>.
\<close>

fun collect_items ::
  "db \<Rightarrow> CartItem list \<Rightarrow> int \<Rightarrow> item_data list \<Rightarrow> (int \<times> item_data list) option" where
  "collect_items s [] total_amount order_items_data = Some (total_amount, order_items_data)"
| "collect_items s (cart_item # rest) total_amount order_items_data =
     (case get_dish_by_id s (ci_dish_id cart_item) of
        None \<Rightarrow> None
      | Some dish \<Rightarrow>
          if \<not> d_is_available dish then None
          else if d_stock_quantity dish < ci_quantity cart_item then None
          else
            (let subtotal = d_price dish * ci_quantity cart_item
             in collect_items s rest (total_amount + subtotal)
                  (order_items_data @
                     [\<lparr>it_dish_id = d_id dish, it_quantity = ci_quantity cart_item,
                       it_unit_price = d_price dish, it_subtotal = subtotal\<rparr>])))"

text \<open>
  The second loop: one \<^verbatim>\<open>OrderItem\<close> per collected line, and the stock of its dish
  reduced, when the dish id is non-zero and the dish is found.
\<close>

fun add_items_update_stock :: "int \<Rightarrow> nat \<Rightarrow> item_data list \<Rightarrow> db \<Rightarrow> db" where
  "add_items_update_stock order_id now [] s = s"
| "add_items_update_stock order_id now (item # rest) s =
     (let order_item = \<lparr>oi_id = next_id (map oi_id (order_items s)),
                        oi_order_id = order_id,
                        oi_dish_id = it_dish_id item,
                        oi_quantity = it_quantity item,
                        oi_unit_price = it_unit_price item,
                        oi_subtotal = it_subtotal item\<rparr>;
          s1 = s\<lparr>order_items := order_items s @ [order_item]\<rparr>;
          s2 = (if it_dish_id item \<noteq> 0
                then (case get_dish_by_id s1 (it_dish_id item) of
                        Some dish \<Rightarrow>
                          update_dish_row (it_dish_id item)
                            (\<lambda>d. d\<lparr>d_stock_quantity := d_stock_quantity d - it_quantity item,
                                    d_updated_at := now\<rparr>) s1
                      | None \<Rightarrow> s1)
                else s1)
      in add_items_update_stock order_id now rest s2)"

text \<open>
  \<^verbatim>\<open>create_order_from_cart\<close> commits twice. \<open>new_order\<close> is the row of the first commit
  (lines 299 to 309), \<open>fulfil_order\<close> the work of the second (lines 312 to 329).
\<close>

definition new_order :: "db \<Rightarrow> int \<Rightarrow> OrderCreate \<Rightarrow> int \<Rightarrow> nat \<Rightarrow> Order" where
  "new_order s user_id order_data total_amount now =
     \<lparr>o_id = next_id (map o_id (orders s)),
      o_user_id = user_id,
      o_order_date = now,
      o_pickup_time = oc_pickup_time order_data,
      o_delivery_type = oc_delivery_type order_data,
      o_status = PENDING,
      o_total_amount = total_amount,
      o_remarks = Some (case oc_remarks order_data of None \<Rightarrow> [] | Some r \<Rightarrow> r),
      o_created_at = now,
      o_updated_at = now\<rparr>"

definition fulfil_order :: "Order \<Rightarrow> item_data list \<Rightarrow> CartItem list \<Rightarrow> nat \<Rightarrow> db \<Rightarrow> db" where
  "fulfil_order order order_items_data cart_items_list now s =
     fold session_delete cart_items_list
       (add_items_update_stock (o_id order) now order_items_data s)"

definition create_order_from_cart ::
  "db \<Rightarrow> int \<Rightarrow> OrderCreate \<Rightarrow> nat \<Rightarrow> Order option \<times> db" where
  "create_order_from_cart s user_id order_data now =
     (let cart_items_list = get_cart_items s user_id
      in if cart_items_list = [] then (None, s)
         else
           (case collect_items s cart_items_list 0 [] of
              None \<Rightarrow> (None, s)
            | Some (total_amount, order_items_data) \<Rightarrow>
                (let order = new_order s user_id order_data total_amount now;
                     s1 = s\<lparr>orders := orders s @ [order]\<rparr>
                 in if o_id order \<noteq> 0
                    then (Some order,
                          fulfil_order order order_items_data cart_items_list now s1)
                    else (Some order, s1))))"

definition get_order_by_id :: "db \<Rightarrow> int \<Rightarrow> Order option" where
  "get_order_by_id s order_id = find (\<lambda>row. o_id row = order_id) (orders s)"

definition get_user_orders :: "db \<Rightarrow> int \<Rightarrow> Order list" where
  "get_user_orders s user_id = filter (\<lambda>row. o_user_id row = user_id) (orders s)"

definition update_order_status ::
  "db \<Rightarrow> int \<Rightarrow> OrderStatus \<Rightarrow> nat \<Rightarrow> Order option \<times> db" where
  "update_order_status s order_id status now =
     (case get_order_by_id s order_id of
        None \<Rightarrow> (None, s)
      | Some order \<Rightarrow>
          (let upd = (\<lambda>row. row\<lparr>o_status := status, o_updated_at := now\<rparr>)
           in (Some (upd order),
               s\<lparr>orders := map (\<lambda>row. if o_id row = order_id then upd row else row) (orders s)\<rparr>)))"

section \<open>Storage faults during order placement\<close>



section \<open>Removing one cart row\<close>

text \<open>
  Modelled from the spec: \<^verbatim>\<open>CartService.remove_from_cart\<close>, which
  \<^verbatim>\<open>user_dashboard.remove_item\<close> calls through \<^verbatim>\<open>app.services\<close>, is not among the
  sources (\<^verbatim>\<open>services_fixed.py\<close> has no such method). The specification says:
  ``remove(user, cart_item): deletes the row; idempotent-by-id (removing a nonexistent
  id is a no-op failure, not a crash)'', and that cart rows are written only by the
  requests of the user who owns them.
\<close>

definition remove_from_cart :: "db \<Rightarrow> int \<Rightarrow> int \<Rightarrow> bool \<times> db" where
  "remove_from_cart s user_id cart_item_id =
     (case find (\<lambda>c. ci_id c = cart_item_id \<and> ci_user_id c = user_id) (cart_items s) of
        None \<Rightarrow> (False, s)
      | Some cart_item \<Rightarrow> (True, session_delete cart_item s))"

section \<open>Sequences of service calls\<close>

text \<open>
  One constructor per state-changing service of \<^verbatim>\<open>services_fixed.py\<close> on the tables
  above, with the arguments of the call and the clock reading. \<open>valid_operation\<close> holds
  the numeric constraints that the argument schemas enforce when they are built
  (\<^verbatim>\<open>ge=0\<close> on the stock of \<^verbatim>\<open>DishCreate\<close> and \<^verbatim>\<open>DishUpdate\<close>, \<^verbatim>\<open>ge=1\<close> on the quantity of
  \<^verbatim>\<open>CartItemCreate\<close>). \<open>run\<close> executes a sequence of calls on the empty database.
\<close>

datatype operation =
    RegisterUser UserCreate nat
  | CreateDish DishCreate nat
  | UpdateDish int DishUpdate nat
  | DeleteDish int nat
  | AddToCart int CartItemCreate nat
  | ClearCart int
  | CreateOrderFromCart int OrderCreate nat
  | UpdateOrderStatus int OrderStatus nat

fun valid_operation :: "operation \<Rightarrow> bool" where
  "valid_operation (CreateDish dish_data now) = (0 \<le> dc_stock_quantity dish_data)"
| "valid_operation (UpdateDish dish_id dish_data now) =
     (case du_stock_quantity dish_data of SetTo (Some q) \<Rightarrow> 0 \<le> q | _ \<Rightarrow> True)"
| "valid_operation (AddToCart user_id cart_data now) = (1 \<le> cic_quantity cart_data)"
| "valid_operation _ = True"

fun exec :: "(string \<Rightarrow> string) \<Rightarrow> db \<Rightarrow> operation \<Rightarrow> db" where
  "exec hp s (RegisterUser user_data now) = snd (register_user hp s user_data now)"
| "exec hp s (CreateDish dish_data now) = snd (create_dish s dish_data now)"
| "exec hp s (UpdateDish dish_id dish_data now) = snd (update_dish s dish_id dish_data now)"
| "exec hp s (DeleteDish dish_id now) = snd (delete_dish s dish_id now)"
| "exec hp s (AddToCart user_id cart_data now) = snd (add_to_cart s user_id cart_data now)"
| "exec hp s (ClearCart user_id) = snd (clear_cart s user_id)"
| "exec hp s (CreateOrderFromCart user_id order_data now) =
     snd (create_order_from_cart s user_id order_data now)"
| "exec hp s (UpdateOrderStatus order_id status now) =
     snd (update_order_status s order_id status now)"

definition run :: "(string \<Rightarrow> string) \<Rightarrow> operation list \<Rightarrow> db" where
  "run hp ops = foldl (exec hp) empty_db ops"

section \<open>Predicates used in the statements\<close>

text \<open>A cart line can be ordered: its dish exists, is available and has enough stock.\<close>

definition line_ok :: "db \<Rightarrow> CartItem \<Rightarrow> bool" where
  "line_ok s c =
     (case get_dish_by_id s (ci_dish_id c) of
        None \<Rightarrow> False
      | Some dish \<Rightarrow> d_is_available dish \<and> ci_quantity c \<le> d_stock_quantity dish)"

text \<open>The order line of a cart line, at the prices of the database \<open>s\<close>.\<close>

definition line_item :: "db \<Rightarrow> CartItem \<Rightarrow> item_data" where
  "line_item s c =
     (let dish = the (get_dish_by_id s (ci_dish_id c))
      in \<lparr>it_dish_id = d_id dish, it_quantity = ci_quantity c,
          it_unit_price = d_price dish, it_subtotal = d_price dish * ci_quantity c\<rparr>)"

text \<open>The rows of an order in the table \<^verbatim>\<open>order_items\<close>.\<close>

definition items_of_order :: "db \<Rightarrow> int \<Rightarrow> OrderItem list" where
  "items_of_order s order_id = filter (\<lambda>i. oi_order_id i = order_id) (order_items s)"

text \<open>
  The quantity a cart row would hold after adding \<open>cart_data\<close>: the quantity of the row of
  this user and dish plus the requested one, or the requested one when there is no row.
\<close>

definition resulting_quantity :: "db \<Rightarrow> int \<Rightarrow> CartItemCreate \<Rightarrow> int" where
  "resulting_quantity s user_id cart_data =
     (case find (\<lambda>c. ci_user_id c = user_id \<and> ci_dish_id c = cic_dish_id cart_data)
             (cart_items s) of
        None \<Rightarrow> cic_quantity cart_data
      | Some existing_item \<Rightarrow> ci_quantity existing_item + cic_quantity cart_data)"

text \<open>
  Consistency of a database: primary keys of dishes and cart rows are unique, dish keys
  are non-zero, stock is not negative, a cart has one row per user and dish with a
  quantity of at least one, and every order item belongs to an order of the table.
\<close>

definition db_inv :: "db \<Rightarrow> bool" where
  "db_inv s \<longleftrightarrow>
     distinct (map d_id (dishes s)) \<and>
     list_all (\<lambda>d. d_id d \<noteq> 0 \<and> 0 \<le> d_stock_quantity d) (dishes s) \<and>
     distinct (map ci_id (cart_items s)) \<and>
     distinct (map (\<lambda>c. (ci_user_id c, ci_dish_id c)) (cart_items s)) \<and>
     list_all (\<lambda>c. 1 \<le> ci_quantity c) (cart_items s) \<and>
     list_all (\<lambda>i. oi_order_id i \<in> set (map o_id (orders s))) (order_items s)"

section \<open>Example data\<close>

definition pizza :: "int \<Rightarrow> Dish" where
  "pizza stock =
     \<lparr>d_id = 1, d_name = ''Pizza'', d_price = 1599, d_description = [],
      d_image_url = None, d_category = ''Pizza'', d_stock_quantity = stock,
      d_is_available = True, d_created_at = 0, d_updated_at = 0\<rparr>"

definition pizza_line :: "int \<Rightarrow> int \<Rightarrow> int \<Rightarrow> CartItem" where
  "pizza_line item_id user_id quantity =
     \<lparr>ci_id = item_id, ci_user_id = user_id, ci_dish_id = 1, ci_quantity = quantity,
      ci_created_at = 1, ci_updated_at = 1\<rparr>"

definition pizza_shop :: "int \<Rightarrow> CartItem list \<Rightarrow> db" where
  "pizza_shop stock lines =
     \<lparr>users = [], dishes = [pizza stock], orders = [], order_items = [], cart_items = lines\<rparr>"

definition lunch :: OrderCreate where
  "lunch = \<lparr>oc_pickup_time = 12, oc_delivery_type = PICKUP, oc_remarks = None\<rparr>"

definition pizza_data :: DishCreate where
  "pizza_data =
     \<lparr>dc_name = ''Pizza'', dc_price = 1599, dc_description = [], dc_image_url = None,
      dc_category = ''Pizza'', dc_stock_quantity = 10\<rparr>"

definition two_pizzas :: CartItemCreate where
  "two_pizzas = \<lparr>cic_dish_id = 1, cic_quantity = 2\<rparr>"

definition john :: UserCreate where
  "john = \<lparr>uc_name = ''John Doe'', uc_email = ''john@example.com'',
           uc_password = ''password123'', uc_phone = ''123-456-7890'',
           uc_department_id = None\<rparr>"

section \<open>Registration history\<close>

text \<open>
  In the sequence of calls \<open>ops\<close>, some call \<^verbatim>\<open>register_user\<close> with the data \<open>d\<close>, whose
  email is \<open>e\<close>, succeeded and created the user \<open>usr\<close>.
\<close>

definition registered :: "(string \<Rightarrow> string) \<Rightarrow> operation list \<Rightarrow> string \<Rightarrow> User \<Rightarrow> UserCreate \<Rightarrow> bool" where
  "registered hp ops e usr d \<longleftrightarrow>
     (\<exists>i n. i < length ops \<and> ops ! i = RegisterUser d n \<and> uc_email d = e \<and>
        fst (register_user hp (run hp (take i ops)) d n) = Some usr)"

text \<open>A stand-in for the hash function in the examples: the password reversed.\<close>

definition demo_hash :: "string \<Rightarrow> string" where
  "demo_hash p = rev p"

section \<open>Auxiliary functions for the second loop of order placement\<close>

text \<open>What one collected order line does to one dish row.\<close>

definition stock_step :: "nat \<Rightarrow> item_data \<Rightarrow> Dish \<Rightarrow> Dish" where
  "stock_step now item d =
     (if d_id d = it_dish_id item \<and> it_dish_id item \<noteq> 0
      then d\<lparr>d_stock_quantity := d_stock_quantity d - it_quantity item, d_updated_at := now\<rparr>
      else d)"

text \<open>The columns of an order item other than its own key.\<close>

definition order_item_fields :: "OrderItem \<Rightarrow> int \<times> int \<times> int \<times> int \<times> int" where
  "order_item_fields i = (oi_order_id i, oi_dish_id i, oi_quantity i, oi_unit_price i, oi_subtotal i)"

text \<open>An administrator creates the pizza, and user 1 puts two of them in the cart.\<close>

definition demo_ops :: "operation list" where
  "demo_ops = [CreateDish pizza_data 0, AddToCart 1 two_pizzas 1]"

section \<open>Auxiliary facts\<close>

subsection \<open>Keys\<close>

lemma fold_max_ge: "(a::int) \<le> fold max ids a \<and> (\<forall>i \<in> set ids. i \<le> fold max ids a)"
proof (induction ids arbitrary: a)
  case Nil
  show ?case by simp
next
  case (Cons x xs)
  from Cons.IH[of "max x a"] show ?case by auto
qed

lemma next_id_pos: "0 < next_id ids"
  using fold_max_ge[of 0 ids] by (simp add: next_id_def)

lemma next_id_fresh: "i \<in> set ids \<Longrightarrow> i < next_id ids"
  using fold_max_ge[of 0 ids] by (auto simp: next_id_def)

subsection \<open>The validation loop and the two outcomes of order placement\<close>

lemma collect_items_None:
  "collect_items s cs t acc = None \<longleftrightarrow> \<not> list_all (line_ok s) cs"
  by (induction cs arbitrary: t acc) (auto simp: line_ok_def Let_def split: option.splits)

lemma collect_items_Some:
  "list_all (line_ok s) cs \<Longrightarrow>
   collect_items s cs t acc =
     Some (t + sum_list (map (it_subtotal \<circ> line_item s) cs), acc @ map (line_item s) cs)"
  by (induction cs arbitrary: t acc)
     (auto simp: line_ok_def line_item_def Let_def split: option.splits)

lemma create_order_from_cart_fail:
  "get_cart_items s user_id = [] \<or> \<not> list_all (line_ok s) (get_cart_items s user_id) \<Longrightarrow>
   create_order_from_cart s user_id order_data now = (None, s)"
  using collect_items_None[of s "get_cart_items s user_id" 0 "[]"]
  by (auto simp: create_order_from_cart_def Let_def)

lemma create_order_from_cart_ok:
  assumes "get_cart_items s user_id \<noteq> []"
    and "list_all (line_ok s) (get_cart_items s user_id)"
  shows "create_order_from_cart s user_id order_data now =
     (let cs = get_cart_items s user_id;
          order = new_order s user_id order_data
                    (sum_list (map (it_subtotal \<circ> line_item s) cs)) now
      in (Some order,
          fulfil_order order (map (line_item s) cs) cs now (s\<lparr>orders := orders s @ [order]\<rparr>)))"
proof -
  have "o_id (new_order s user_id order_data t now) \<noteq> 0" for t
    using next_id_pos[of "map o_id (orders s)"] by (simp add: new_order_def)
  then show ?thesis
    using assms collect_items_Some[OF assms(2), of 0 "[]"]
    by (simp add: create_order_from_cart_def Let_def)
qed

subsection \<open>Deleting cart rows\<close>

lemma fold_session_delete:
  "fold session_delete xs s =
     s\<lparr>cart_items := filter (\<lambda>c. ci_id c \<notin> ci_id ` set xs) (cart_items s)\<rparr>"
proof (induction xs arbitrary: s)
  case Nil
  show ?case by simp
next
  case (Cons x xs)
  have "fold session_delete (x # xs) s = fold session_delete xs (session_delete x s)"
    by simp
  also have "\<dots> = (session_delete x s)
      \<lparr>cart_items := filter (\<lambda>c. ci_id c \<notin> ci_id ` set xs) (cart_items (session_delete x s))\<rparr>"
    by (rule Cons.IH)
  also have "\<dots> = s\<lparr>cart_items := filter (\<lambda>c. ci_id c \<notin> ci_id ` set (x # xs)) (cart_items s)\<rparr>"
    unfolding session_delete_def by (auto intro: filter_cong)
  finally show ?case .
qed

lemma clear_cart_rows:
  "distinct (map ci_id (cart_items s)) \<Longrightarrow>
   snd (clear_cart s u) = s\<lparr>cart_items := filter (\<lambda>c. ci_user_id c \<noteq> u) (cart_items s)\<rparr>"
proof -
  assume d: "distinct (map ci_id (cart_items s))"
  have "filter (\<lambda>c. ci_id c \<notin> ci_id ` set (get_cart_items s u)) (cart_items s)
        = filter (\<lambda>c. ci_user_id c \<noteq> u) (cart_items s)"
  proof (rule filter_cong[OF refl])
    fix c assume c: "c \<in> set (cart_items s)"
    show "(ci_id c \<notin> ci_id ` set (get_cart_items s u)) = (ci_user_id c \<noteq> u)"
    proof
      assume "ci_id c \<notin> ci_id ` set (get_cart_items s u)"
      with c show "ci_user_id c \<noteq> u" by (auto simp: get_cart_items_def)
    next
      assume n: "ci_user_id c \<noteq> u"
      show "ci_id c \<notin> ci_id ` set (get_cart_items s u)"
      proof
        assume "ci_id c \<in> ci_id ` set (get_cart_items s u)"
        then obtain c' where c': "c' \<in> set (cart_items s)" "ci_user_id c' = u" "ci_id c' = ci_id c"
          by (auto simp: get_cart_items_def)
        with d c have "c' = c" by (meson distinct_map inj_onD)
        with c' n show False by simp
      qed
    qed
  qed
  then show ?thesis by (simp add: clear_cart_def fold_session_delete)
qed

lemma clear_cart_empty: "get_cart_items (snd (clear_cart s u)) u = []"
  by (auto simp: clear_cart_def fold_session_delete get_cart_items_def filter_empty_conv)

subsection \<open>Order placement with a failing commit\<close>




subsection \<open>Users and registrations\<close>

lemma find_snoc:
  "find P (xs @ [x]) = (case find P xs of Some y \<Rightarrow> Some y | None \<Rightarrow> if P x then Some x else None)"
  by (induction xs) auto

lemma add_items_update_stock_frame:
  "users (add_items_update_stock oid now its s) = users s \<and>
   orders (add_items_update_stock oid now its s) = orders s \<and>
   cart_items (add_items_update_stock oid now its s) = cart_items s"
  by (induction its arbitrary: s)
     (auto simp: Let_def update_dish_row_def split: option.splits)

lemma fulfil_order_users: "users (fulfil_order ord its cs now s) = users s"
  by (simp add: fulfil_order_def fold_session_delete add_items_update_stock_frame)

lemma fulfil_order_orders: "orders (fulfil_order ord its cs now s) = orders s"
  by (simp add: fulfil_order_def fold_session_delete add_items_update_stock_frame)

lemma create_order_users: "users (snd (create_order_from_cart s u od now)) = users s"
  by (simp add: create_order_from_cart_def Let_def fulfil_order_users split: option.splits)

lemma exec_users:
  "users (exec hp s op) = (case op of RegisterUser d n \<Rightarrow> users (snd (register_user hp s d n)) | _ \<Rightarrow> users s)"
proof (cases op)
  case (UpdateDish i d n)
  then show ?thesis
    by (simp add: update_dish_def update_dish_row_def Let_def split: option.splits)
next
  case (CreateOrderFromCart u od n)
  then show ?thesis by (simp add: create_order_users)
qed (simp_all add: create_dish_def Let_def delete_dish_def update_dish_row_def add_to_cart_def
       update_cart_row_def clear_cart_def fold_session_delete update_order_status_def
       split: option.splits)

lemma run_snoc: "run hp (ops @ [op]) = exec hp (run hp ops) op"
  by (simp add: run_def)

lemma registered_snoc:
  "registered hp (ops @ [op]) e usr d \<longleftrightarrow>
     registered hp ops e usr d \<or>
     (\<exists>n. op = RegisterUser d n \<and> uc_email d = e \<and> fst (register_user hp (run hp ops) d n) = Some usr)"
proof
  assume "registered hp (ops @ [op]) e usr d"
  then obtain i n where i: "i < Suc (length ops)" "(ops @ [op]) ! i = RegisterUser d n" "uc_email d = e"
      "fst (register_user hp (run hp (take i (ops @ [op]))) d n) = Some usr"
    by (auto simp: registered_def)
  show "registered hp ops e usr d \<or>
     (\<exists>n. op = RegisterUser d n \<and> uc_email d = e \<and> fst (register_user hp (run hp ops) d n) = Some usr)"
  proof (cases "i < length ops")
    case True
    with i have "registered hp ops e usr d"
      unfolding registered_def
      by (intro exI[of _ i] exI[of _ n]) (simp add: nth_append)
    then show ?thesis ..
  next
    case False
    with i have "i = length ops" by simp
    with i show ?thesis by auto
  qed
next
  assume "registered hp ops e usr d \<or>
     (\<exists>n. op = RegisterUser d n \<and> uc_email d = e \<and> fst (register_user hp (run hp ops) d n) = Some usr)"
  then show "registered hp (ops @ [op]) e usr d"
  proof
    assume "registered hp ops e usr d"
    then obtain i n where "i < length ops" "ops ! i = RegisterUser d n" "uc_email d = e"
      "fst (register_user hp (run hp (take i ops)) d n) = Some usr"
      by (auto simp: registered_def)
    then show ?thesis
      unfolding registered_def
      by (intro exI[of _ i] exI[of _ n]) (simp add: nth_append)
  next
    assume "\<exists>n. op = RegisterUser d n \<and> uc_email d = e \<and> fst (register_user hp (run hp ops) d n) = Some usr"
    then obtain n where "op = RegisterUser d n" "uc_email d = e" "fst (register_user hp (run hp ops) d n) = Some usr"
      by auto
    then show ?thesis
      unfolding registered_def
      by (intro exI[of _ "length ops"] exI[of _ n]) simp
  qed
qed

lemma register_user_result:
  "register_user hp s d n =
     (if \<exists>u \<in> set (users s). u_email u = uc_email d then (None, s)
      else (Some \<lparr>u_id = next_id (map u_id (users s)), u_name = uc_name d, u_email = uc_email d,
                   u_password_hash = hp (uc_password d), u_phone = uc_phone d, u_role = REGULAR,
                   u_department_id = uc_department_id d, u_is_active = True,
                   u_created_at = n, u_updated_at = n\<rparr>,
            s\<lparr>users := users s @ [\<lparr>u_id = next_id (map u_id (users s)), u_name = uc_name d, u_email = uc_email d,
                   u_password_hash = hp (uc_password d), u_phone = uc_phone d, u_role = REGULAR,
                   u_department_id = uc_department_id d, u_is_active = True,
                   u_created_at = n, u_updated_at = n\<rparr>]\<rparr>))"
proof (cases "find (\<lambda>u. u_email u = uc_email d) (users s)")
  case None
  then have "\<not> (\<exists>u \<in> set (users s). u_email u = uc_email d)" by (auto simp: find_None_iff)
  with None show ?thesis by (simp add: register_user_def Let_def)
next
  case (Some a)
  then have "\<exists>u \<in> set (users s). u_email u = uc_email d" by (auto simp: find_Some_iff)
  with Some show ?thesis by (simp add: register_user_def)
qed

lemma registered_snoc_ex:
  "(\<exists>d. registered hp (ops @ [op]) e usr d) \<longleftrightarrow>
     (\<exists>d. registered hp ops e usr d) \<or>
     (\<exists>d n. op = RegisterUser d n \<and> uc_email d = e \<and> fst (register_user hp (run hp ops) d n) = Some usr)"
  unfolding registered_snoc by blast

lemma find_user_registered:
  "find (\<lambda>u. u_email u = e) (users (run hp ops)) = Some usr \<longleftrightarrow> (\<exists>d. registered hp ops e usr d)"
proof (induction ops arbitrary: usr rule: rev_induct)
  case Nil
  show ?case by (simp add: run_def empty_db_def registered_def)
next
  case (snoc op ops)
  let ?s = "run hp ops"
  show ?case
  proof (cases op)
    case (RegisterUser d n)
    show ?thesis
    proof (cases "\<exists>u \<in> set (users ?s). u_email u = uc_email d")
      case True
      then have "register_user hp ?s d n = (None, ?s)" by (simp add: register_user_result)
      then show ?thesis
        using snoc.IH RegisterUser
        by (simp add: run_snoc registered_snoc_ex)
    next
      case False
      define new where "new = \<lparr>u_id = next_id (map u_id (users ?s)), u_name = uc_name d, u_email = uc_email d,
                   u_password_hash = hp (uc_password d), u_phone = uc_phone d, u_role = REGULAR,
                   u_department_id = uc_department_id d, u_is_active = True,
                   u_created_at = n, u_updated_at = n\<rparr>"
      from False have reg: "register_user hp ?s d n = (Some new, ?s\<lparr>users := users ?s @ [new]\<rparr>)"
        by (simp add: register_user_result new_def)
      have em: "u_email new = uc_email d" by (simp add: new_def)
      show ?thesis
      proof (cases "find (\<lambda>u. u_email u = e) (users ?s)")
        case None
        then have "\<not> (\<exists>d. registered hp ops e usr d)" using snoc.IH by simp
        with None show ?thesis
          using RegisterUser reg em
          by (auto simp: run_snoc registered_snoc_ex find_snoc)
      next
        case (Some y)
        then have ne: "uc_email d \<noteq> e" using False by (auto simp: find_Some_iff)
        have "(find (\<lambda>u. u_email u = e) (users ?s) = Some usr) = (\<exists>d. registered hp ops e usr d)"
          by (rule snoc.IH)
        then have "(y = usr) = (\<exists>d. registered hp ops e usr d)"
          unfolding Some by simp
        with Some ne show ?thesis
          using RegisterUser reg
          by (auto simp: run_snoc registered_snoc_ex find_snoc)
      qed
    qed
  qed (use snoc.IH in \<open>simp_all add: run_snoc registered_snoc_ex exec_users del: exec.simps\<close>)
qed

lemma registered_hash:
  assumes "registered hp ops e usr d"
  shows "u_password_hash usr = hp (uc_password d) \<and> (\<exists>n. RegisterUser d n \<in> set ops)"
proof -
  from assms obtain i n where i: "i < length ops" "ops ! i = RegisterUser d n"
    "fst (register_user hp (run hp (take i ops)) d n) = Some usr"
    by (auto simp: registered_def)
  from i(3) have "u_password_hash usr = hp (uc_password d)"
    by (auto simp: register_user_result split: if_splits)
  moreover from i(1,2) have "RegisterUser d n \<in> set ops"
    by (metis nth_mem)
  ultimately show ?thesis by blast
qed

lemma register_then_authenticate:
  assumes "fst (register_user hp s d n) = Some usr"
  shows "u_password_hash usr = hp (uc_password d) \<and>
         authenticate_user hp (snd (register_user hp s d n))
           \<lparr>ul_email = uc_email d, ul_password = uc_password d\<rparr> = Some usr"
proof -
  from assms have no: "\<not> (\<exists>u \<in> set (users s). u_email u = uc_email d)"
    by (auto simp: register_user_result split: if_splits)
  then have f: "find (\<lambda>u. u_email u = uc_email d) (users s) = None"
    by (auto simp: find_None_iff)
  from assms no show ?thesis
    by (auto simp: register_user_result authenticate_user_def find_snoc f)
qed

subsection \<open>The second loop of order placement\<close>

lemma find_None_map_id:
  "find (\<lambda>d. d_id d = k) ds = None \<Longrightarrow> map (\<lambda>d. if d_id d = k then f d else d) ds = ds"
  by (induction ds) (auto split: if_splits)

lemma add_items_step_dishes:
  "dishes (if it_dish_id item \<noteq> 0
           then (case get_dish_by_id s1 (it_dish_id item) of
                   Some dish \<Rightarrow>
                     update_dish_row (it_dish_id item)
                       (\<lambda>d. d\<lparr>d_stock_quantity := d_stock_quantity d - it_quantity item,
                               d_updated_at := now\<rparr>) s1
                 | None \<Rightarrow> s1)
           else s1) = map (stock_step now item) (dishes s1)"
proof -
  have eq: "stock_step now item =
     (\<lambda>d. if d_id d = it_dish_id item \<and> it_dish_id item \<noteq> 0
      then d\<lparr>d_stock_quantity := d_stock_quantity d - it_quantity item, d_updated_at := now\<rparr>
      else d)"
    by (rule ext) (simp add: stock_step_def)
  show ?thesis
  proof (cases "it_dish_id item = 0")
    case True
    then show ?thesis by (simp add: eq)
  next
    case False
    show ?thesis
    proof (cases "get_dish_by_id s1 (it_dish_id item)")
      case None
      then have "map (\<lambda>d. if d_id d = it_dish_id item
           then d\<lparr>d_stock_quantity := d_stock_quantity d - it_quantity item, d_updated_at := now\<rparr> else d) (dishes s1) = dishes s1"
        unfolding get_dish_by_id_def by (rule find_None_map_id)
      with None False show ?thesis by (simp add: eq)
    next
      case (Some a)
      with False show ?thesis by (simp add: update_dish_row_def eq)
    qed
  qed
qed

lemma add_items_step_order_items:
  "order_items (if c then (case x of Some dish \<Rightarrow> update_dish_row k f s1 | None \<Rightarrow> s1) else s1)
     = order_items s1"
  by (simp add: update_dish_row_def split: option.splits)

lemma add_items_dishes:
  "dishes (add_items_update_stock oid now its s) = map (\<lambda>d. fold (stock_step now) its d) (dishes s)"
proof (induction its arbitrary: s)
  case Nil
  show ?case by simp
next
  case (Cons item its)
  show ?case
    unfolding add_items_update_stock.simps Let_def Cons.IH add_items_step_dishes
    by simp
qed

lemma add_items_order_items:
  "\<exists>new. order_items (add_items_update_stock oid now its s) = order_items s @ new \<and>
         map order_item_fields new =
           map (\<lambda>it. (oid, it_dish_id it, it_quantity it, it_unit_price it, it_subtotal it)) its"
proof (induction its arbitrary: s)
  case Nil
  show ?case by simp
next
  case (Cons item its)
  let ?row = "\<lparr>oi_id = next_id (map oi_id (order_items s)), oi_order_id = oid,
                oi_dish_id = it_dish_id item, oi_quantity = it_quantity item,
                oi_unit_price = it_unit_price item, oi_subtotal = it_subtotal item\<rparr>"
  let ?s1 = "s\<lparr>order_items := order_items s @ [?row]\<rparr>"
  let ?s2 = "(if it_dish_id item \<noteq> 0
           then (case get_dish_by_id ?s1 (it_dish_id item) of
                   Some dish \<Rightarrow>
                     update_dish_row (it_dish_id item)
                       (\<lambda>d. d\<lparr>d_stock_quantity := d_stock_quantity d - it_quantity item,
                               d_updated_at := now\<rparr>) ?s1
                 | None \<Rightarrow> ?s1)
           else ?s1)"
  have s2: "order_items ?s2 = order_items s @ [?row]"
    by (simp add: add_items_step_order_items)
  from Cons.IH[of ?s2] obtain new where
    new: "order_items (add_items_update_stock oid now its ?s2) = order_items ?s2 @ new"
         "map order_item_fields new =
           map (\<lambda>it. (oid, it_dish_id it, it_quantity it, it_unit_price it, it_subtotal it)) its"
    by blast
  have "add_items_update_stock oid now (item # its) s = add_items_update_stock oid now its ?s2"
    by (simp add: Let_def)
  with new s2 have "order_items (add_items_update_stock oid now (item # its) s) = order_items s @ (?row # new)"
    by simp
  moreover have "map order_item_fields (?row # new) =
           map (\<lambda>it. (oid, it_dish_id it, it_quantity it, it_unit_price it, it_subtotal it)) (item # its)"
    using new(2) by (simp add: order_item_fields_def)
  ultimately show ?case by blast
qed

lemma fold_stock_step:
  "d_id (fold (stock_step now) its d) = d_id d \<and>
   d_price (fold (stock_step now) its d) = d_price d \<and>
   d_is_available (fold (stock_step now) its d) = d_is_available d \<and>
   d_stock_quantity (fold (stock_step now) its d) =
     d_stock_quantity d -
       sum_list (map it_quantity (filter (\<lambda>it. it_dish_id it = d_id d \<and> it_dish_id it \<noteq> 0) its))"
  by (induction its arbitrary: d) (auto simp: stock_step_def)

lemma line_item_fields:
  assumes "line_ok s c"
  shows "it_dish_id (line_item s c) = ci_dish_id c"
    and "it_quantity (line_item s c) = ci_quantity c"
    and "it_unit_price (line_item s c) = d_price (the (get_dish_by_id s (ci_dish_id c)))"
    and "it_subtotal (line_item s c) = d_price (the (get_dish_by_id s (ci_dish_id c))) * ci_quantity c"
proof -
  from assms obtain dish where d: "get_dish_by_id s (ci_dish_id c) = Some dish"
    by (auto simp: line_ok_def split: option.splits)
  then have "d_id dish = ci_dish_id c"
    by (auto simp: get_dish_by_id_def find_Some_iff)
  with d show "it_dish_id (line_item s c) = ci_dish_id c"
    by (simp add: line_item_def)
  show "it_quantity (line_item s c) = ci_quantity c"
    and "it_unit_price (line_item s c) = d_price (the (get_dish_by_id s (ci_dish_id c)))"
    and "it_subtotal (line_item s c) = d_price (the (get_dish_by_id s (ci_dish_id c))) * ci_quantity c"
    by (simp_all add: line_item_def Let_def)
qed

lemma matching_quantity:
  "list_all (line_ok s) cs \<Longrightarrow> k \<noteq> 0 \<Longrightarrow>
   sum_list (map it_quantity
      (filter (\<lambda>it. it_dish_id it = k \<and> it_dish_id it \<noteq> 0) (map (line_item s) cs)))
   = sum_list (map ci_quantity (filter (\<lambda>c. ci_dish_id c = k) cs))"
  by (induction cs) (auto simp: line_item_fields)

lemma distinct_dishes_of_cart:
  "distinct (map (\<lambda>c. (ci_user_id c, ci_dish_id c)) xs) \<Longrightarrow>
   distinct (map ci_dish_id (filter (\<lambda>c. ci_user_id c = u) xs))"
  by (induction xs) (auto simp: image_iff)

lemma filter_key_cases:
  "distinct (map g xs) \<Longrightarrow>
   filter (\<lambda>x. g x = k) xs = [] \<or> (\<exists>c \<in> set xs. g c = k \<and> filter (\<lambda>x. g x = k) xs = [c])"
proof (induction xs)
  case Nil
  show ?case by simp
next
  case (Cons x xs)
  show ?case
  proof (cases "g x = k")
    case True
    with Cons.prems have "\<forall>y \<in> set xs. g y \<noteq> k" by (auto simp: image_iff)
    then have "filter (\<lambda>x. g x = k) xs = []" by (auto simp: filter_empty_conv)
    with True show ?thesis by simp
  next
    case False
    with Cons show ?thesis by auto
  qed
qed

lemma filter_key_member:
  assumes "distinct (map g xs)" and "c \<in> set xs"
  shows "filter (\<lambda>x. g x = g c) xs = [c]"
proof -
  from filter_key_cases[OF assms(1), of "g c"] assms(2)
  obtain c' where c': "c' \<in> set xs" "g c' = g c" "filter (\<lambda>x. g x = g c) xs = [c']"
    by (auto simp: filter_empty_conv)
  with assms have "c' = c" by (meson distinct_map inj_onD)
  with c' show ?thesis by simp
qed

lemma find_map_same_key:
  "(\<And>d. d_id (g d) = d_id d) \<Longrightarrow>
   find (\<lambda>d. d_id d = k) (map g ds) = map_option g (find (\<lambda>d. d_id d = k) ds)"
  by (induction ds) auto

lemma find_distinct_member:
  "distinct (map d_id ds) \<Longrightarrow> d \<in> set ds \<Longrightarrow> find (\<lambda>x. d_id x = d_id d) ds = Some d"
  by (induction ds) (auto simp: image_iff)

subsection \<open>The database after a successful order placement\<close>

lemma create_order_success:
  fixes s :: db and u :: int and od :: OrderCreate and now :: nat
  assumes "get_cart_items s u \<noteq> []" and "list_all (line_ok s) (get_cart_items s u)"
  defines "cs \<equiv> get_cart_items s u"
  defines "ord \<equiv> new_order s u od (sum_list (map (it_subtotal \<circ> line_item s) cs)) now"
  defines "s' \<equiv> snd (create_order_from_cart s u od now)"
  shows "fst (create_order_from_cart s u od now) = Some ord"
    and "users s' = users s"
    and "orders s' = orders s @ [ord]"
    and "cart_items s' = filter (\<lambda>c. ci_id c \<notin> ci_id ` set cs) (cart_items s)"
    and "dishes s' = map (\<lambda>d. fold (stock_step now) (map (line_item s) cs) d) (dishes s)"
    and "\<exists>new. order_items s' = order_items s @ new \<and>
           map order_item_fields new =
             map (\<lambda>it. (o_id ord, it_dish_id it, it_quantity it, it_unit_price it, it_subtotal it))
               (map (line_item s) cs)"
proof -
  let ?s1 = "s\<lparr>orders := orders s @ [ord]\<rparr>"
  let ?a = "add_items_update_stock (o_id ord) now (map (line_item s) cs) ?s1"
  have r: "create_order_from_cart s u od now = (Some ord, fold session_delete cs ?a)"
    using create_order_from_cart_ok[OF assms(1,2), of od now]
    by (simp add: Let_def cs_def ord_def fulfil_order_def)
  then show "fst (create_order_from_cart s u od now) = Some ord" by simp
  from r have s': "s' = fold session_delete cs ?a" by (simp add: s'_def)
  have frame: "users ?a = users s" "orders ?a = orders s @ [ord]" "cart_items ?a = cart_items s"
    using add_items_update_stock_frame[of "o_id ord" now "map (line_item s) cs" ?s1] by simp_all
  show "users s' = users s" "orders s' = orders s @ [ord]"
    "cart_items s' = filter (\<lambda>c. ci_id c \<notin> ci_id ` set cs) (cart_items s)"
    by (simp_all add: s' fold_session_delete frame)
  show "dishes s' = map (\<lambda>d. fold (stock_step now) (map (line_item s) cs) d) (dishes s)"
    by (simp add: s' fold_session_delete add_items_dishes)
  show "\<exists>new. order_items s' = order_items s @ new \<and>
           map order_item_fields new =
             map (\<lambda>it. (o_id ord, it_dish_id it, it_quantity it, it_unit_price it, it_subtotal it))
               (map (line_item s) cs)"
    using add_items_order_items[of "o_id ord" now "map (line_item s) cs" ?s1]
    by (simp add: s' fold_session_delete)
qed

lemma items_of_new_order:
  fixes s :: db and u :: int and od :: OrderCreate and now :: nat
  assumes fk: "list_all (\<lambda>i. oi_order_id i \<in> set (map o_id (orders s))) (order_items s)"
    and ne: "get_cart_items s u \<noteq> []" and ok: "list_all (line_ok s) (get_cart_items s u)"
  defines "ord \<equiv> new_order s u od (sum_list (map (it_subtotal \<circ> line_item s) (get_cart_items s u))) now"
  shows "map order_item_fields (items_of_order (snd (create_order_from_cart s u od now)) (o_id ord)) =
     map (\<lambda>c. (o_id ord, ci_dish_id c, ci_quantity c,
                d_price (the (get_dish_by_id s (ci_dish_id c))),
                d_price (the (get_dish_by_id s (ci_dish_id c))) * ci_quantity c))
       (get_cart_items s u)"
proof -
  let ?cs = "get_cart_items s u"
  from create_order_success(6)[OF ne ok, of od now]
  obtain new where new: "order_items (snd (create_order_from_cart s u od now)) = order_items s @ new"
    "map order_item_fields new =
       map (\<lambda>it. (o_id ord, it_dish_id it, it_quantity it, it_unit_price it, it_subtotal it))
         (map (line_item s) ?cs)"
    unfolding ord_def by blast
  have oid: "o_id ord = next_id (map o_id (orders s))"
    by (simp add: ord_def new_order_def)
  have old: "filter (\<lambda>i. oi_order_id i = o_id ord) (order_items s) = []"
  proof -
    have "oi_order_id i \<noteq> o_id ord" if "i \<in> set (order_items s)" for i
    proof -
      from fk that have "oi_order_id i \<in> set (map o_id (orders s))" by (simp add: list_all_iff)
      from next_id_fresh[OF this] show ?thesis by (simp add: oid)
    qed
    then show ?thesis by (auto simp: filter_empty_conv)
  qed
  have all: "\<forall>i \<in> set new. oi_order_id i = o_id ord"
  proof
    fix i assume "i \<in> set new"
    then have "order_item_fields i \<in> set (map order_item_fields new)" by simp
    then show "oi_order_id i = o_id ord"
      unfolding new(2) by (auto simp: order_item_fields_def)
  qed
  then have "filter (\<lambda>i. oi_order_id i = o_id ord) new = new" by (auto simp: filter_id_conv)
  with old new(1) have "items_of_order (snd (create_order_from_cart s u od now)) (o_id ord) = new"
    by (simp add: items_of_order_def)
  moreover have "map (\<lambda>it. (o_id ord, it_dish_id it, it_quantity it, it_unit_price it, it_subtotal it))
         (map (line_item s) ?cs) =
     map (\<lambda>c. (o_id ord, ci_dish_id c, ci_quantity c,
                d_price (the (get_dish_by_id s (ci_dish_id c))),
                d_price (the (get_dish_by_id s (ci_dish_id c))) * ci_quantity c)) ?cs"
    using ok by (auto simp: list_all_iff line_item_fields)
  ultimately show ?thesis using new(2) by simp
qed

lemma new_order_row:
  fixes s :: db and u :: int and od :: OrderCreate and now :: nat
  assumes ne: "get_cart_items s u \<noteq> []" and ok: "list_all (line_ok s) (get_cart_items s u)"
  defines "ord \<equiv> new_order s u od (sum_list (map (it_subtotal \<circ> line_item s) (get_cart_items s u))) now"
  shows "get_order_by_id (snd (create_order_from_cart s u od now)) (o_id ord) = Some ord"
proof -
  have "find (\<lambda>row. o_id row = o_id ord) (orders s) = None"
  proof -
    have "o_id row \<noteq> o_id ord" if "row \<in> set (orders s)" for row
      using next_id_fresh[of "o_id row" "map o_id (orders s)"] that
      by (auto simp: ord_def new_order_def)
    then show ?thesis by (auto simp: find_None_iff)
  qed
  then show ?thesis
    using create_order_success(3)[OF ne ok, of od now]
    by (simp add: get_order_by_id_def find_snoc ord_def)
qed

lemma stock_after_order:
  fixes s :: db and u :: int and od :: OrderCreate and now :: nat
  assumes inv: "db_inv s"
    and ne: "get_cart_items s u \<noteq> []" and ok: "list_all (line_ok s) (get_cart_items s u)"
    and d: "get_dish_by_id s k = Some d"
  shows "\<exists>d'. get_dish_by_id (snd (create_order_from_cart s u od now)) k = Some d' \<and>
           d_id d' = d_id d \<and> d_price d' = d_price d \<and> d_is_available d' = d_is_available d \<and>
           d_stock_quantity d' =
             d_stock_quantity d -
               sum_list (map ci_quantity (filter (\<lambda>c. ci_dish_id c = k) (get_cart_items s u)))"
proof -
  let ?its = "map (line_item s) (get_cart_items s u)"
  let ?d' = "fold (stock_step now) ?its d"
  from d have k: "d_id d = k" "d \<in> set (dishes s)"
    by (auto simp: get_dish_by_id_def find_Some_iff)
  with inv have k0: "k \<noteq> 0" by (auto simp: db_inv_def list_all_iff)
  have "get_dish_by_id (snd (create_order_from_cart s u od now)) k = Some ?d'"
    using d unfolding get_dish_by_id_def create_order_success(5)[OF ne ok]
    by (subst find_map_same_key) (simp_all add: fold_stock_step)
  moreover have "d_stock_quantity ?d' =
      d_stock_quantity d - sum_list (map ci_quantity (filter (\<lambda>c. ci_dish_id c = k) (get_cart_items s u)))"
    using fold_stock_step[of now ?its d] matching_quantity[OF ok k0] k(1) by simp
  ultimately show ?thesis using fold_stock_step[of now ?its d] by simp
qed

subsection \<open>Consistency is kept by every service\<close>

lemma next_id_notin: "next_id ids \<notin> set ids"
  using next_id_fresh[of "next_id ids" ids] by auto

lemma map_key_update:
  "(\<And>x. key (f x) = key x) \<Longrightarrow> map key (map (\<lambda>x. if P x then f x else x) xs) = map key xs"
  by (induction xs) auto

lemma db_inv_empty: "db_inv empty_db"
  by (simp add: db_inv_def empty_db_def)

lemma db_inv_register_user: "db_inv s \<Longrightarrow> db_inv (snd (register_user hp s d n))"
  by (simp add: register_user_result db_inv_def)

lemma db_inv_create_dish:
  assumes "db_inv s" and "0 \<le> dc_stock_quantity d"
  shows "db_inv (snd (create_dish s d n))"
  using assms next_id_notin[of "map d_id (dishes s)"] next_id_pos[of "map d_id (dishes s)"]
  by (simp add: create_dish_def Let_def db_inv_def)

lemma db_inv_update_dish_row:
  assumes "db_inv s"
    and "\<And>d. d_id (f d) = d_id d"
    and "\<And>d. d \<in> set (dishes s) \<Longrightarrow> 0 \<le> d_stock_quantity (f d)"
  shows "db_inv (update_dish_row k f s)"
proof -
  have "map d_id (map (\<lambda>d. if d_id d = k then f d else d) (dishes s)) = map d_id (dishes s)"
    by (rule map_key_update) (rule assms(2))
  moreover have "list_all (\<lambda>d. d_id d \<noteq> 0 \<and> 0 \<le> d_stock_quantity d)
      (map (\<lambda>d. if d_id d = k then f d else d) (dishes s))"
    using assms by (auto simp: db_inv_def list_all_iff)
  ultimately show ?thesis
    using assms(1) by (simp add: db_inv_def update_dish_row_def del: map_map)
qed

lemma db_inv_update_dish:
  assumes "db_inv s" and "valid_operation (UpdateDish k dd n)"
  shows "db_inv (snd (update_dish s k dd n))"
proof (cases "get_dish_by_id s k")
  case None
  with assms(1) show ?thesis by (simp add: update_dish_def)
next
  case (Some dish)
  let ?st = "setattr (du_stock_quantity dd) (Some (d_stock_quantity dish))"
  from Some have mem: "dish \<in> set (dishes s)"
    by (auto simp: get_dish_by_id_def find_Some_iff)
  have st: "0 \<le> the ?st" if "?st \<noteq> None"
  proof (cases "du_stock_quantity dd")
    case Unset
    with mem assms(1) show ?thesis by (auto simp: db_inv_def list_all_iff)
  next
    case (SetTo v)
    with that assms(2) show ?thesis by (cases v) auto
  qed
  show ?thesis
  proof (cases "setattr (du_name dd) (Some (d_name dish)) = None
       \<or> setattr (du_price dd) (Some (d_price dish)) = None
       \<or> setattr (du_description dd) (Some (d_description dish)) = None
       \<or> setattr (du_category dd) (Some (d_category dish)) = None
       \<or> ?st = None
       \<or> setattr (du_is_available dd) (Some (d_is_available dish)) = None")
    case True
    with Some assms(1) show ?thesis by (simp add: update_dish_def Let_def)
  next
    case False
    then have "?st \<noteq> None" by simp
    with st have "0 \<le> the ?st" by simp
    then have "db_inv (update_dish_row k (\<lambda>d. d\<lparr>d_name := the (setattr (du_name dd) (Some (d_name dish))),
                                     d_price := the (setattr (du_price dd) (Some (d_price dish))),
                                     d_description := the (setattr (du_description dd) (Some (d_description dish))),
                                     d_image_url := setattr (du_image_url dd) (d_image_url dish),
                                     d_category := the (setattr (du_category dd) (Some (d_category dish))),
                                     d_stock_quantity := the ?st,
                                     d_is_available := the (setattr (du_is_available dd) (Some (d_is_available dish))),
                                     d_updated_at := n\<rparr>) s)"
      by (intro db_inv_update_dish_row[OF assms(1)]) simp_all
    with Some False show ?thesis by (simp add: update_dish_def Let_def del: not_None_eq)
  qed
qed

lemma db_inv_delete_dish: "db_inv s \<Longrightarrow> db_inv (snd (delete_dish s k n))"
proof (cases "get_dish_by_id s k")
  case None
  then show "db_inv s \<Longrightarrow> ?thesis" by (simp add: delete_dish_def)
next
  case (Some dish)
  assume inv: "db_inv s"
  have "db_inv (update_dish_row k (\<lambda>d. d\<lparr>d_is_available := False, d_updated_at := n\<rparr>) s)"
    using inv by (intro db_inv_update_dish_row) (auto simp: db_inv_def list_all_iff)
  with Some show ?thesis by (simp add: delete_dish_def)
qed

lemma db_inv_add_to_cart:
  assumes inv: "db_inv s" and q: "1 \<le> cic_quantity cd"
  shows "db_inv (snd (add_to_cart s u cd n))"
proof (cases "get_dish_by_id s (cic_dish_id cd)")
  case None
  with inv show ?thesis by (simp add: add_to_cart_def)
next
  case (Some dish)
  show ?thesis
  proof (cases "\<not> d_is_available dish \<or> d_stock_quantity dish < cic_quantity cd")
    case True
    with Some inv show ?thesis by (auto simp: add_to_cart_def)
  next
    case False
    let ?P = "\<lambda>c. ci_user_id c = u \<and> ci_dish_id c = cic_dish_id cd"
    show ?thesis
    proof (cases "find ?P (cart_items s)")
      case None
      then have "(u, cic_dish_id cd) \<notin> set (map (\<lambda>c. (ci_user_id c, ci_dish_id c)) (cart_items s))"
        by (auto simp: find_None_iff)
      with None Some False inv q next_id_notin[of "map ci_id (cart_items s)"]
      show ?thesis
        by (simp add: add_to_cart_def Let_def db_inv_def)
    next
      case (Some e)
      then have e: "e \<in> set (cart_items s)" by (auto simp: find_Some_iff)
      with inv have eq: "1 \<le> ci_quantity e" by (auto simp: db_inv_def list_all_iff)
      let ?upd = "\<lambda>c. c\<lparr>ci_quantity := ci_quantity e + cic_quantity cd, ci_updated_at := n\<rparr>"
      let ?m = "map (\<lambda>c. if ci_id c = ci_id e then ?upd c else c) (cart_items s)"
      have "map ci_id ?m = map ci_id (cart_items s)"
        by (rule map_key_update) simp
      moreover have "map (\<lambda>c. (ci_user_id c, ci_dish_id c)) ?m
          = map (\<lambda>c. (ci_user_id c, ci_dish_id c)) (cart_items s)"
        by (rule map_key_update) simp
      moreover have "list_all (\<lambda>c. 1 \<le> ci_quantity c) ?m"
        using inv eq q by (auto simp: db_inv_def list_all_iff)
      ultimately have "db_inv (update_cart_row (ci_id e) ?upd s)"
        using inv by (simp add: db_inv_def update_cart_row_def del: map_map)
      with Some \<open>get_dish_by_id s (cic_dish_id cd) = Some dish\<close> False inv show ?thesis
        by (auto simp: add_to_cart_def Let_def)
    qed
  qed
qed

lemma db_inv_filter_cart:
  "db_inv s \<Longrightarrow> db_inv (s\<lparr>cart_items := filter P (cart_items s)\<rparr>)"
  by (auto simp: db_inv_def list_all_iff distinct_map_filter)

lemma db_inv_clear_cart: "db_inv s \<Longrightarrow> db_inv (snd (clear_cart s u))"
  by (simp add: clear_cart_def fold_session_delete db_inv_filter_cart)

lemma db_inv_update_order_status: "db_inv s \<Longrightarrow> db_inv (snd (update_order_status s k st n))"
proof (cases "get_order_by_id s k")
  case None
  then show "db_inv s \<Longrightarrow> ?thesis" by (simp add: update_order_status_def)
next
  case (Some row)
  assume inv: "db_inv s"
  have "map o_id (map (\<lambda>row. if o_id row = k then row\<lparr>o_status := st, o_updated_at := n\<rparr> else row) (orders s))
      = map o_id (orders s)"
    by (rule map_key_update) simp
  with Some inv show ?thesis
    by (simp add: update_order_status_def Let_def db_inv_def del: set_map map_map)
qed

lemma stock_not_negative_after_order:
  fixes s :: db and u :: int and now :: nat
  assumes inv: "db_inv s" and ok: "list_all (line_ok s) (get_cart_items s u)"
    and d: "d \<in> set (dishes s)"
  shows "0 \<le> d_stock_quantity (fold (stock_step now) (map (line_item s) (get_cart_items s u)) d)"
proof -
  let ?cs = "get_cart_items s u"
  from inv d have k0: "d_id d \<noteq> 0" and st: "0 \<le> d_stock_quantity d"
    by (auto simp: db_inv_def list_all_iff)
  from inv d have f: "get_dish_by_id s (d_id d) = Some d"
    unfolding get_dish_by_id_def by (intro find_distinct_member) (auto simp: db_inv_def)
  have dist: "distinct (map ci_dish_id ?cs)"
    using inv unfolding get_cart_items_def db_inv_def
    by (auto intro: distinct_dishes_of_cart)
  have "sum_list (map ci_quantity (filter (\<lambda>c. ci_dish_id c = d_id d) ?cs)) \<le> d_stock_quantity d"
  proof -
    from filter_key_cases[OF dist, of "d_id d"]
    consider "filter (\<lambda>c. ci_dish_id c = d_id d) ?cs = []"
      | c where "c \<in> set ?cs" "ci_dish_id c = d_id d" "filter (\<lambda>c. ci_dish_id c = d_id d) ?cs = [c]"
      by blast
    then show ?thesis
    proof cases
      case 1
      with st show ?thesis by simp
    next
      case 2
      from ok 2(1) have "line_ok s c" by (simp add: list_all_iff)
      with f 2(2) have "ci_quantity c \<le> d_stock_quantity d" by (simp add: line_ok_def)
      with 2(3) show ?thesis by simp
    qed
  qed
  then show ?thesis
    using fold_stock_step[of now "map (line_item s) ?cs" d] matching_quantity[OF ok k0] by simp
qed

lemma db_inv_create_order:
  assumes inv: "db_inv s"
  shows "db_inv (snd (create_order_from_cart s u od now))"
proof (cases "get_cart_items s u = [] \<or> \<not> list_all (line_ok s) (get_cart_items s u)")
  case True
  with inv show ?thesis by (simp add: create_order_from_cart_fail)
next
  case False
  then have ne: "get_cart_items s u \<noteq> []" and ok: "list_all (line_ok s) (get_cart_items s u)"
    by auto
  let ?cs = "get_cart_items s u"
  let ?s' = "snd (create_order_from_cart s u od now)"
  let ?g = "\<lambda>d. fold (stock_step now) (map (line_item s) ?cs) d"
  note r = create_order_success[OF ne ok, of od now]
  have ids: "map d_id (dishes ?s') = map d_id (dishes s)"
    unfolding r(5) by (simp add: fold_stock_step comp_def)
  have 1: "distinct (map d_id (dishes ?s'))"
    using inv by (simp add: ids db_inv_def)
  have 2: "list_all (\<lambda>d. d_id d \<noteq> 0 \<and> 0 \<le> d_stock_quantity d) (dishes ?s')"
    unfolding r(5) list_all_iff
  proof
    fix d' assume "d' \<in> set (map ?g (dishes s))"
    then obtain d where d: "d \<in> set (dishes s)" "d' = ?g d" by auto
    from inv d(1) have "d_id d \<noteq> 0" by (auto simp: db_inv_def list_all_iff)
    with d(2) stock_not_negative_after_order[OF inv ok d(1), of now]
    show "d_id d' \<noteq> 0 \<and> 0 \<le> d_stock_quantity d'"
      by (simp add: fold_stock_step)
  qed
  have 3: "distinct (map ci_id (cart_items ?s'))"
    "distinct (map (\<lambda>c. (ci_user_id c, ci_dish_id c)) (cart_items ?s'))"
    "list_all (\<lambda>c. 1 \<le> ci_quantity c) (cart_items ?s')"
    using inv unfolding r(4) by (auto simp: db_inv_def list_all_iff distinct_map_filter)
  from r(6) obtain new where new: "order_items ?s' = order_items s @ new"
    "map order_item_fields new =
       map (\<lambda>it. (o_id (new_order s u od (sum_list (map (it_subtotal \<circ> line_item s) ?cs)) now),
                  it_dish_id it, it_quantity it, it_unit_price it, it_subtotal it))
         (map (line_item s) ?cs)"
    by blast
  let ?ord = "new_order s u od (sum_list (map (it_subtotal \<circ> line_item s) ?cs)) now"
  have n: "oi_order_id i = o_id ?ord" if "i \<in> set new" for i
  proof -
    from that have "order_item_fields i \<in> set (map order_item_fields new)" by simp
    then show ?thesis unfolding new(2) by (auto simp: order_item_fields_def)
  qed
  have 4: "list_all (\<lambda>i. oi_order_id i \<in> set (map o_id (orders ?s'))) (order_items ?s')"
    using inv n unfolding new(1) r(3) by (auto simp: db_inv_def list_all_iff)
  from 1 2 3 4 show ?thesis by (simp add: db_inv_def)
qed

lemma db_inv_exec:
  assumes "db_inv s" and "valid_operation op"
  shows "db_inv (exec hp s op)"
proof (cases op)
  case (RegisterUser d n)
  with assms show ?thesis by (simp add: db_inv_register_user)
next
  case (CreateDish d n)
  with assms show ?thesis by (simp add: db_inv_create_dish)
next
  case (UpdateDish k d n)
  with assms show ?thesis by (simp add: db_inv_update_dish del: valid_operation.simps)
next
  case (DeleteDish k n)
  with assms show ?thesis by (simp add: db_inv_delete_dish)
next
  case (AddToCart u cd n)
  with assms show ?thesis by (simp add: db_inv_add_to_cart)
next
  case (ClearCart u)
  with assms show ?thesis by (simp add: db_inv_clear_cart)
next
  case (CreateOrderFromCart u od n)
  with assms show ?thesis by (simp add: db_inv_create_order)
next
  case (UpdateOrderStatus k st n)
  with assms show ?thesis by (simp add: db_inv_update_order_status)
qed

lemma db_inv_run: "list_all valid_operation ops \<Longrightarrow> db_inv (run hp ops)"
proof (induction ops rule: rev_induct)
  case Nil
  show ?case by (simp add: run_def db_inv_empty)
next
  case (snoc op ops)
  then show ?case by (simp add: run_snoc db_inv_exec)
qed

lemma find_unique_row:
  assumes "distinct (map key xs)" and "e \<in> set xs"
  shows "find (\<lambda>c. key c = key e) xs = Some e"
  using assms by (induction xs) (auto simp: image_iff)

lemma add_to_cart_existing:
  assumes inv: "db_inv s" and e: "e \<in> set (cart_items s)"
    and k: "cic_dish_id cd = ci_dish_id e"
    and ok: "fst (add_to_cart s (ci_user_id e) cd n) \<noteq> None"
  shows "add_to_cart s (ci_user_id e) cd n =
     (Some (e\<lparr>ci_quantity := ci_quantity e + cic_quantity cd, ci_updated_at := n\<rparr>),
      s\<lparr>cart_items := map (\<lambda>c. if c = e
                                then e\<lparr>ci_quantity := ci_quantity e + cic_quantity cd,
                                       ci_updated_at := n\<rparr>
                                else c) (cart_items s)\<rparr>)"
proof -
  let ?upd = "\<lambda>c. c\<lparr>ci_quantity := ci_quantity e + cic_quantity cd, ci_updated_at := n\<rparr>"
  have "find (\<lambda>c. (ci_user_id c, ci_dish_id c) = (ci_user_id e, ci_dish_id e)) (cart_items s) = Some e"
    using inv e by (intro find_unique_row) (simp_all add: db_inv_def)
  then have f: "find (\<lambda>c. ci_user_id c = ci_user_id e \<and> ci_dish_id c = cic_dish_id cd) (cart_items s) = Some e"
    by (simp add: k)
  have m: "map (\<lambda>c. if ci_id c = ci_id e then ?upd c else c) (cart_items s)
         = map (\<lambda>c. if c = e then ?upd e else c) (cart_items s)"
  proof (rule map_cong[OF refl])
    fix c assume c: "c \<in> set (cart_items s)"
    from inv have "distinct (map ci_id (cart_items s))" by (simp add: db_inv_def)
    with c e have "ci_id c = ci_id e \<longleftrightarrow> c = e" by (meson distinct_map inj_onD)
    then show "(if ci_id c = ci_id e then ?upd c else c) = (if c = e then ?upd e else c)"
      by auto
  qed
  from ok f show ?thesis
    unfolding m[symmetric]
    by (auto simp: add_to_cart_def Let_def update_cart_row_def split: option.splits if_splits)
qed

lemma run_demo_ops:
  "run hp demo_ops =
     \<lparr>users = [], dishes = [pizza 10], orders = [], order_items = [],
      cart_items = [pizza_line 1 1 2]\<rparr>"
  by (simp add: run_def demo_ops_def empty_db_def create_dish_def add_to_cart_def
        get_dish_by_id_def next_id_def Let_def pizza_data_def two_pizzas_def pizza_def
        pizza_line_def)

section \<open>Atomicity of order placement\<close>




section \<open>Failed order placement\<close>

text \<open>
  C2. \<^verbatim>\<open>create_order_from_cart\<close> returns no order exactly when the cart of the user is
  empty or some cart line cannot be ordered (its dish is missing, is not available, or
  has less stock than the line asks for); and whenever it returns no order, the database
  after the call is the database before it: stock, orders, order items and cart rows are
  all unchanged.
\<close>

theorem create_order_failure_leaves_state:
  "(fst (create_order_from_cart s user_id order_data now) = None \<longleftrightarrow>
      get_cart_items s user_id = [] \<or> \<not> list_all (line_ok s) (get_cart_items s user_id))
   \<and> (fst (create_order_from_cart s user_id order_data now) = None \<longrightarrow>
      snd (create_order_from_cart s user_id order_data now) = s)"
proof (cases "get_cart_items s user_id = [] \<or> \<not> list_all (line_ok s) (get_cart_items s user_id)")
  case True
  then show ?thesis by (simp add: create_order_from_cart_fail)
next
  case False
  then show ?thesis by (simp add: create_order_from_cart_ok Let_def)
qed

theorem create_order_failure_leaves_state_witness:
  "fst (create_order_from_cart (pizza_shop 1 [pizza_line 1 1 2]) 1 lunch 5) = None \<and>
   snd (create_order_from_cart (pizza_shop 1 [pizza_line 1 1 2]) 1 lunch 5)
     = pizza_shop 1 [pizza_line 1 1 2]"
  using create_order_failure_leaves_state[of "pizza_shop 1 [pizza_line 1 1 2]" 1 lunch 5]
  by (simp add: get_cart_items_def pizza_shop_def pizza_line_def line_ok_def
        get_dish_by_id_def pizza_def)

section \<open>Successful order placement\<close>

text \<open>
  C3. In a consistent database in which the cart of the user is not empty and every cart
  line can be ordered, \<^verbatim>\<open>create_order_from_cart\<close> returns an order; the order is in the
  table with status pending and belongs to the user; afterwards the cart of the user is
  empty; for every cart line the stock of its dish is the stock before minus the
  quantity of the line; and the order items of the order are, in the order of the cart
  lines, one per line, with the dish and quantity of the line, the price of the dish at
  the time of the call as unit price, and unit price times quantity as subtotal.
\<close>

theorem create_order_success_effects:
  assumes inv: "db_inv s"
    and ne: "get_cart_items s u \<noteq> []"
    and ok: "list_all (line_ok s) (get_cart_items s u)"
  shows "\<exists>ord. fst (create_order_from_cart s u od now) = Some ord
      \<and> get_order_by_id (snd (create_order_from_cart s u od now)) (o_id ord) = Some ord
      \<and> o_status ord = PENDING \<and> o_user_id ord = u
      \<and> get_cart_items (snd (create_order_from_cart s u od now)) u = []
      \<and> (\<forall>c \<in> set (get_cart_items s u). \<exists>d d'.
            get_dish_by_id s (ci_dish_id c) = Some d \<and>
            get_dish_by_id (snd (create_order_from_cart s u od now)) (ci_dish_id c) = Some d' \<and>
            d_stock_quantity d' = d_stock_quantity d - ci_quantity c)
      \<and> map order_item_fields (items_of_order (snd (create_order_from_cart s u od now)) (o_id ord)) =
          map (\<lambda>c. (o_id ord, ci_dish_id c, ci_quantity c,
                     d_price (the (get_dish_by_id s (ci_dish_id c))),
                     d_price (the (get_dish_by_id s (ci_dish_id c))) * ci_quantity c))
            (get_cart_items s u)"
proof -
  let ?cs = "get_cart_items s u"
  let ?ord = "new_order s u od (sum_list (map (it_subtotal \<circ> line_item s) ?cs)) now"
  let ?s' = "snd (create_order_from_cart s u od now)"
  have 1: "fst (create_order_from_cart s u od now) = Some ?ord"
    by (rule create_order_success(1)[OF ne ok])
  have 2: "get_order_by_id ?s' (o_id ?ord) = Some ?ord"
    by (rule new_order_row[OF ne ok])
  have 3: "o_status ?ord = PENDING \<and> o_user_id ?ord = u"
    by (simp add: new_order_def)
  have 4: "get_cart_items ?s' u = []"
    unfolding get_cart_items_def create_order_success(4)[OF ne ok]
    by (auto simp: filter_empty_conv get_cart_items_def)
  have dist: "distinct (map ci_dish_id ?cs)"
    using inv unfolding get_cart_items_def db_inv_def
    by (auto intro: distinct_dishes_of_cart)
  have 5: "\<forall>c \<in> set ?cs. \<exists>d d'.
            get_dish_by_id s (ci_dish_id c) = Some d \<and>
            get_dish_by_id ?s' (ci_dish_id c) = Some d' \<and>
            d_stock_quantity d' = d_stock_quantity d - ci_quantity c"
  proof
    fix c assume c: "c \<in> set ?cs"
    with ok have "line_ok s c" by (simp add: list_all_iff)
    then obtain d where d: "get_dish_by_id s (ci_dish_id c) = Some d"
      by (auto simp: line_ok_def split: option.splits)
    from filter_key_member[OF dist c]
    have "sum_list (map ci_quantity (filter (\<lambda>x. ci_dish_id x = ci_dish_id c) ?cs)) = ci_quantity c"
      by simp
    with stock_after_order[OF inv ne ok d, of od now] d
    show "\<exists>d d'. get_dish_by_id s (ci_dish_id c) = Some d \<and>
            get_dish_by_id ?s' (ci_dish_id c) = Some d' \<and>
            d_stock_quantity d' = d_stock_quantity d - ci_quantity c"
      by auto
  qed
  have fk: "list_all (\<lambda>i. oi_order_id i \<in> set (map o_id (orders s))) (order_items s)"
    using inv by (simp add: db_inv_def)
  note 6 = items_of_new_order[OF fk ne ok, of od now]
  from 1 2 3 4 5 6 show ?thesis by blast
qed

theorem create_order_success_effects_witness:
  "db_inv (pizza_shop 10 [pizza_line 1 1 2]) \<and>
   get_cart_items (pizza_shop 10 [pizza_line 1 1 2]) 1 = [pizza_line 1 1 2] \<and>
   list_all (line_ok (pizza_shop 10 [pizza_line 1 1 2])) [pizza_line 1 1 2] \<and>
   get_cart_items (snd (create_order_from_cart (pizza_shop 10 [pizza_line 1 1 2]) 1 lunch 5)) 1 = [] \<and>
   dishes (snd (create_order_from_cart (pizza_shop 10 [pizza_line 1 1 2]) 1 lunch 5))
     = [(pizza 8)\<lparr>d_updated_at := 5\<rparr>]"
proof -
  let ?s = "pizza_shop 10 [pizza_line 1 1 2]"
  have cs: "get_cart_items ?s 1 = [pizza_line 1 1 2]"
    by (simp add: get_cart_items_def pizza_shop_def pizza_line_def)
  have h1: "db_inv ?s"
    by (simp add: db_inv_def pizza_shop_def pizza_line_def pizza_def)
  have h2: "get_cart_items ?s 1 \<noteq> []"
    by (simp add: cs)
  have ok: "list_all (line_ok ?s) [pizza_line 1 1 2]"
    by (simp add: line_ok_def get_dish_by_id_def pizza_shop_def pizza_line_def pizza_def)
  then have h3: "list_all (line_ok ?s) (get_cart_items ?s 1)"
    by (simp add: cs)
  from create_order_success_effects[OF h1 h2 h3, of lunch 5]
  have e: "get_cart_items (snd (create_order_from_cart ?s 1 lunch 5)) 1 = []"
    by blast
  have d: "dishes (snd (create_order_from_cart ?s 1 lunch 5)) = [(pizza 8)\<lparr>d_updated_at := 5\<rparr>]"
    by (simp add: create_order_from_cart_def get_cart_items_def
        pizza_shop_def pizza_line_def pizza_def lunch_def get_dish_by_id_def new_order_def
        next_id_def fulfil_order_def update_dish_row_def session_delete_def Let_def)
  from h1 cs ok e d show ?thesis by simp
qed

section \<open>Order totals\<close>

text \<open>
  C4. For the order that \<^verbatim>\<open>create_order_from_cart\<close> returns (in a database where every
  order item belongs to an order of the table), the subtotals of its order items add up
  to exactly its \<^verbatim>\<open>total_amount\<close>, every subtotal is unit price times quantity, and the
  row of the order in the table carries that total. Amounts are exact numbers of cents:
  three dishes at 15.99 give the subtotal 47.97.
\<close>

theorem order_total_is_sum_of_subtotals:
  assumes fk: "list_all (\<lambda>i. oi_order_id i \<in> set (map o_id (orders s))) (order_items s)"
    and r: "create_order_from_cart s u od now = (Some ord, s')"
  shows "sum_list (map oi_subtotal (items_of_order s' (o_id ord))) = o_total_amount ord
       \<and> (\<forall>i \<in> set (items_of_order s' (o_id ord)). oi_subtotal i = oi_unit_price i * oi_quantity i)
       \<and> get_order_by_id s' (o_id ord) = Some ord"
proof -
  let ?cs = "get_cart_items s u"
  let ?p = "\<lambda>c. d_price (the (get_dish_by_id s (ci_dish_id c)))"
  from r have "\<not> (?cs = [] \<or> \<not> list_all (line_ok s) ?cs)"
    using create_order_from_cart_fail[of s u od now] by auto
  then have ne: "?cs \<noteq> []" and ok: "list_all (line_ok s) ?cs" by auto
  from r create_order_success(1)[OF ne ok, of od now]
  have ord: "ord = new_order s u od (sum_list (map (it_subtotal \<circ> line_item s) ?cs)) now"
    by simp
  from r have s': "s' = snd (create_order_from_cart s u od now)" by simp
  have f: "map order_item_fields (items_of_order s' (o_id ord)) =
      map (\<lambda>c. (o_id ord, ci_dish_id c, ci_quantity c, ?p c, ?p c * ci_quantity c)) ?cs"
    unfolding s' ord by (rule items_of_new_order[OF fk ne ok])
  have sub: "oi_subtotal = (\<lambda>(a, b, c, d, e). e) \<circ> order_item_fields"
    and up: "(\<lambda>i. (oi_unit_price i, oi_quantity i, oi_subtotal i)) = (\<lambda>(a, b, c, d, e). (d, c, e)) \<circ> order_item_fields"
    by (auto simp: order_item_fields_def fun_eq_iff)
  have "map oi_subtotal (items_of_order s' (o_id ord)) = map (\<lambda>c. ?p c * ci_quantity c) ?cs"
    unfolding sub map_map[symmetric] f by (simp add: comp_def)
  moreover have "o_total_amount ord = sum_list (map (\<lambda>c. ?p c * ci_quantity c) ?cs)"
    unfolding ord using ok
    by (auto simp: new_order_def comp_def list_all_iff line_item_fields intro!: arg_cong[where f=sum_list])
  ultimately have 1: "sum_list (map oi_subtotal (items_of_order s' (o_id ord))) = o_total_amount ord"
    by simp
  have "map (\<lambda>i. (oi_unit_price i, oi_quantity i, oi_subtotal i)) (items_of_order s' (o_id ord))
      = map (\<lambda>c. (?p c, ci_quantity c, ?p c * ci_quantity c)) ?cs"
    unfolding up map_map[symmetric] f by (simp add: comp_def)
  then have "set (map (\<lambda>i. (oi_unit_price i, oi_quantity i, oi_subtotal i)) (items_of_order s' (o_id ord)))
      = set (map (\<lambda>c. (?p c, ci_quantity c, ?p c * ci_quantity c)) ?cs)"
    by simp
  then have 2: "\<forall>i \<in> set (items_of_order s' (o_id ord)). oi_subtotal i = oi_unit_price i * oi_quantity i"
    by (auto simp: image_iff set_eq_iff) (metis prod.inject)
  have 3: "get_order_by_id s' (o_id ord) = Some ord"
    unfolding s' ord by (rule new_order_row[OF ne ok])
  from 1 2 3 show ?thesis by blast
qed

theorem order_total_is_sum_of_subtotals_witness:
  "map (\<lambda>i. (oi_unit_price i, oi_quantity i, oi_subtotal i))
     (items_of_order (snd (create_order_from_cart (pizza_shop 10 [pizza_line 1 1 3]) 1 lunch 5)) 1)
     = [(1599, 3, 4797)] \<and>
   sum_list (map oi_subtotal
     (items_of_order (snd (create_order_from_cart (pizza_shop 10 [pizza_line 1 1 3]) 1 lunch 5)) 1))
     = 4797 \<and>
   map_option o_total_amount
     (fst (create_order_from_cart (pizza_shop 10 [pizza_line 1 1 3]) 1 lunch 5)) = Some 4797"
proof -
  let ?s = "pizza_shop 10 [pizza_line 1 1 3]"
  let ?ord = "\<lparr>o_id = 1, o_user_id = 1, o_order_date = 5, o_pickup_time = 12,
               o_delivery_type = PICKUP, o_status = PENDING, o_total_amount = 4797,
               o_remarks = Some [], o_created_at = 5, o_updated_at = 5\<rparr>"
  have fk: "list_all (\<lambda>i. oi_order_id i \<in> set (map o_id (orders ?s))) (order_items ?s)"
    by (simp add: pizza_shop_def)
  have f: "fst (create_order_from_cart ?s 1 lunch 5) = Some ?ord"
    by (simp add: create_order_from_cart_def get_cart_items_def
        pizza_shop_def pizza_line_def pizza_def lunch_def get_dish_by_id_def new_order_def
        next_id_def Let_def)
  then have r: "create_order_from_cart ?s 1 lunch 5 = (Some ?ord, snd (create_order_from_cart ?s 1 lunch 5))"
    by (simp add: prod_eq_iff)
  have i: "items_of_order (snd (create_order_from_cart ?s 1 lunch 5)) 1
      = [\<lparr>oi_id = 1, oi_order_id = 1, oi_dish_id = 1, oi_quantity = 3,
           oi_unit_price = 1599, oi_subtotal = 4797\<rparr>]"
    by (simp add: create_order_from_cart_def get_cart_items_def items_of_order_def
        pizza_shop_def pizza_line_def pizza_def lunch_def get_dish_by_id_def new_order_def
        next_id_def fulfil_order_def update_dish_row_def session_delete_def Let_def)
  from order_total_is_sum_of_subtotals[OF fk r] f i show ?thesis by simp
qed

section \<open>Stock is never negative\<close>

text \<open>
  C5. After every sequence of service calls with valid arguments on the empty database
  (registration, dish creation, update and deletion, adding to and clearing a cart, order
  placement, status updates), the stock of every dish is at least zero; in particular
  the stock decrements of a further \<^verbatim>\<open>create_order_from_cart\<close> leave every stock at least
  zero.
\<close>

theorem stock_never_negative:
  assumes "list_all valid_operation ops"
  shows "list_all (\<lambda>d. 0 \<le> d_stock_quantity d) (dishes (run hp ops))
       \<and> list_all (\<lambda>d. 0 \<le> d_stock_quantity d)
            (dishes (snd (create_order_from_cart (run hp ops) u od now)))"
proof -
  from assms have inv: "db_inv (run hp ops)" by (rule db_inv_run)
  then have "db_inv (snd (create_order_from_cart (run hp ops) u od now))"
    by (rule db_inv_create_order)
  with inv show ?thesis by (auto simp: db_inv_def list_all_iff)
qed

theorem stock_never_negative_witness:
  "list_all valid_operation (demo_ops @ [CreateOrderFromCart 1 lunch 2]) \<and>
   map d_stock_quantity (dishes (run demo_hash (demo_ops @ [CreateOrderFromCart 1 lunch 2]))) = [8] \<and>
   list_all (\<lambda>d. 0 \<le> d_stock_quantity d)
     (dishes (run demo_hash (demo_ops @ [CreateOrderFromCart 1 lunch 2])))"
proof -
  have h: "list_all valid_operation (demo_ops @ [CreateOrderFromCart 1 lunch 2])"
    by (simp add: demo_ops_def pizza_data_def two_pizzas_def)
  have "dishes (run demo_hash (demo_ops @ [CreateOrderFromCart 1 lunch 2]))
      = [(pizza 8)\<lparr>d_updated_at := 2\<rparr>]"
    unfolding run_snoc run_demo_ops
    by (simp add: create_order_from_cart_def get_cart_items_def
        pizza_line_def pizza_def lunch_def get_dish_by_id_def new_order_def
        next_id_def fulfil_order_def update_dish_row_def session_delete_def Let_def)
  then have "map d_stock_quantity (dishes (run demo_hash (demo_ops @ [CreateOrderFromCart 1 lunch 2]))) = [8]"
    by (simp add: pizza_def)
  with h stock_never_negative[OF h, of demo_hash 1 lunch 3] show ?thesis by simp
qed

section \<open>One cart row per user and dish\<close>

text \<open>
  C6. After every sequence of service calls with valid arguments on the empty database,
  no two cart rows have the same user and dish. A successful \<^verbatim>\<open>add_to_cart\<close> for a user
  and a dish that already have a row returns that row with its quantity raised by the
  requested quantity (at least one, so the quantity grows strictly), changes only that
  row, and adds none: the cart still has one row per user and dish.
\<close>

theorem cart_one_row_per_dish:
  assumes "list_all valid_operation ops"
  shows "distinct (map (\<lambda>c. (ci_user_id c, ci_dish_id c)) (cart_items (run hp ops)))
     \<and> (\<forall>e \<in> set (cart_items (run hp ops)). \<forall>cd n.
           cic_dish_id cd = ci_dish_id e \<and> 1 \<le> cic_quantity cd \<and>
           fst (add_to_cart (run hp ops) (ci_user_id e) cd n) \<noteq> None \<longrightarrow>
             add_to_cart (run hp ops) (ci_user_id e) cd n =
               (Some (e\<lparr>ci_quantity := ci_quantity e + cic_quantity cd, ci_updated_at := n\<rparr>),
                (run hp ops)\<lparr>cart_items :=
                   map (\<lambda>c. if c = e
                            then e\<lparr>ci_quantity := ci_quantity e + cic_quantity cd,
                                   ci_updated_at := n\<rparr>
                            else c) (cart_items (run hp ops))\<rparr>)
             \<and> ci_quantity e < ci_quantity e + cic_quantity cd
             \<and> distinct (map (\<lambda>c. (ci_user_id c, ci_dish_id c))
                  (cart_items (snd (add_to_cart (run hp ops) (ci_user_id e) cd n)))))"
proof -
  from assms have inv: "db_inv (run hp ops)" by (rule db_inv_run)
  then have 1: "distinct (map (\<lambda>c. (ci_user_id c, ci_dish_id c)) (cart_items (run hp ops)))"
    by (simp add: db_inv_def)
  have 2: "add_to_cart (run hp ops) (ci_user_id e) cd n =
               (Some (e\<lparr>ci_quantity := ci_quantity e + cic_quantity cd, ci_updated_at := n\<rparr>),
                (run hp ops)\<lparr>cart_items :=
                   map (\<lambda>c. if c = e
                            then e\<lparr>ci_quantity := ci_quantity e + cic_quantity cd,
                                   ci_updated_at := n\<rparr>
                            else c) (cart_items (run hp ops))\<rparr>)
             \<and> ci_quantity e < ci_quantity e + cic_quantity cd
             \<and> distinct (map (\<lambda>c. (ci_user_id c, ci_dish_id c))
                  (cart_items (snd (add_to_cart (run hp ops) (ci_user_id e) cd n))))"
    if "e \<in> set (cart_items (run hp ops))" "cic_dish_id cd = ci_dish_id e" "1 \<le> cic_quantity cd"
       "fst (add_to_cart (run hp ops) (ci_user_id e) cd n) \<noteq> None" for e cd n
  proof -
    from db_inv_add_to_cart[OF inv that(3), of "ci_user_id e" n]
    have "distinct (map (\<lambda>c. (ci_user_id c, ci_dish_id c))
                  (cart_items (snd (add_to_cart (run hp ops) (ci_user_id e) cd n))))"
      by (simp add: db_inv_def)
    with add_to_cart_existing[OF inv that(1,2,4)] that(3) show ?thesis by simp
  qed
  from 1 2 show ?thesis by blast
qed

theorem cart_one_row_per_dish_witness:
  "list_all valid_operation demo_ops \<and>
   cart_items (run demo_hash demo_ops) = [pizza_line 1 1 2] \<and>
   add_to_cart (run demo_hash demo_ops) 1 two_pizzas 3 =
     (Some ((pizza_line 1 1 4)\<lparr>ci_updated_at := 3\<rparr>),
      (run demo_hash demo_ops)\<lparr>cart_items := [(pizza_line 1 1 4)\<lparr>ci_updated_at := 3\<rparr>]\<rparr>)"
proof -
  have h: "list_all valid_operation demo_ops"
    by (simp add: demo_ops_def pizza_data_def two_pizzas_def)
  have c: "cart_items (run demo_hash demo_ops) = [pizza_line 1 1 2]"
    by (simp add: run_demo_ops)
  have ok: "fst (add_to_cart (run demo_hash demo_ops) 1 two_pizzas 3) \<noteq> None"
    unfolding run_demo_ops
    by (simp add: add_to_cart_def get_dish_by_id_def two_pizzas_def pizza_def pizza_line_def)
  from cart_one_row_per_dish[OF h, of demo_hash] c
  have "cic_dish_id two_pizzas = ci_dish_id (pizza_line 1 1 2) \<and> 1 \<le> cic_quantity two_pizzas \<and>
           fst (add_to_cart (run demo_hash demo_ops) (ci_user_id (pizza_line 1 1 2)) two_pizzas 3) \<noteq> None \<longrightarrow>
             add_to_cart (run demo_hash demo_ops) (ci_user_id (pizza_line 1 1 2)) two_pizzas 3 =
               (Some ((pizza_line 1 1 2)\<lparr>ci_quantity := ci_quantity (pizza_line 1 1 2) + cic_quantity two_pizzas, ci_updated_at := 3\<rparr>),
                (run demo_hash demo_ops)\<lparr>cart_items :=
                   map (\<lambda>c. if c = pizza_line 1 1 2
                            then (pizza_line 1 1 2)\<lparr>ci_quantity := ci_quantity (pizza_line 1 1 2) + cic_quantity two_pizzas,
                                   ci_updated_at := 3\<rparr>
                            else c) (cart_items (run demo_hash demo_ops))\<rparr>)"
    by simp
  with ok c h show ?thesis
    by (simp add: pizza_line_def two_pizzas_def)
qed

section \<open>Adding to the cart\<close>

text \<open>
  C7. With cart quantities of at least one and a requested quantity of at least one,
  \<^verbatim>\<open>add_to_cart\<close> returns no cart item exactly when the dish does not exist, or is not
  available, or the resulting quantity (the quantity of the row of this user and dish
  plus the requested one, or the requested one when there is no such row) exceeds the
  stock of the dish. A failing call changes nothing; a successful one appends a new row
  with the requested quantity when there was none, and otherwise raises the quantity of
  the existing row by the requested quantity.
\<close>

theorem add_to_cart_fails_iff:
  assumes "list_all (\<lambda>c. 1 \<le> ci_quantity c) (cart_items s)"
    and "1 \<le> cic_quantity cart_data"
  shows "(fst (add_to_cart s user_id cart_data now) = None \<longleftrightarrow>
            (case get_dish_by_id s (cic_dish_id cart_data) of
               None \<Rightarrow> True
             | Some dish \<Rightarrow> \<not> d_is_available dish
                  \<or> d_stock_quantity dish < resulting_quantity s user_id cart_data))
       \<and> (fst (add_to_cart s user_id cart_data now) = None \<longrightarrow>
            snd (add_to_cart s user_id cart_data now) = s)
       \<and> (\<forall>item. fst (add_to_cart s user_id cart_data now) = Some item \<longrightarrow>
            (case find (\<lambda>c. ci_user_id c = user_id \<and> ci_dish_id c = cic_dish_id cart_data)
                    (cart_items s) of
               None \<Rightarrow>
                 cart_items (snd (add_to_cart s user_id cart_data now)) = cart_items s @ [item]
                 \<and> ci_user_id item = user_id \<and> ci_dish_id item = cic_dish_id cart_data
                 \<and> ci_quantity item = cic_quantity cart_data
             | Some existing_item \<Rightarrow>
                 cart_items (snd (add_to_cart s user_id cart_data now)) =
                   map (\<lambda>c. if ci_id c = ci_id existing_item
                            then c\<lparr>ci_quantity := ci_quantity existing_item + cic_quantity cart_data,
                                   ci_updated_at := now\<rparr>
                            else c) (cart_items s)
                 \<and> item = existing_item
                      \<lparr>ci_quantity := ci_quantity existing_item + cic_quantity cart_data,
                       ci_updated_at := now\<rparr>))"
proof -
  let ?f = "find (\<lambda>c. ci_user_id c = user_id \<and> ci_dish_id c = cic_dish_id cart_data) (cart_items s)"
  have pos: "1 \<le> ci_quantity e" if "?f = Some e" for e
  proof -
    from that have "e \<in> set (cart_items s)" by (auto simp: find_Some_iff)
    with assms(1) show ?thesis by (simp add: list_all_iff)
  qed
  show ?thesis
  proof (cases "get_dish_by_id s (cic_dish_id cart_data)")
    case None
    then show ?thesis by (simp add: add_to_cart_def)
  next
    case (Some dish)
    show ?thesis
    proof (cases ?f)
      case None
      with Some show ?thesis
        by (auto simp: add_to_cart_def resulting_quantity_def Let_def)
    next
      case (Some e)
      with \<open>get_dish_by_id s (cic_dish_id cart_data) = Some dish\<close> pos[OF Some] assms(2)
      show ?thesis
        by (auto simp: add_to_cart_def resulting_quantity_def Let_def update_cart_row_def)
    qed
  qed
qed

theorem add_to_cart_fails_iff_witness:
  "list_all (\<lambda>c. 1 \<le> ci_quantity c) (cart_items (pizza_shop 10 [pizza_line 1 1 2])) \<and>
   1 \<le> cic_quantity two_pizzas \<and>
   fst (add_to_cart (pizza_shop 10 [pizza_line 1 1 2]) 1 two_pizzas 5) \<noteq> None \<and>
   cart_items (snd (add_to_cart (pizza_shop 10 [pizza_line 1 1 2]) 1 two_pizzas 5))
     = [(pizza_line 1 1 4)\<lparr>ci_updated_at := 5\<rparr>]"
proof -
  have h1: "list_all (\<lambda>c. 1 \<le> ci_quantity c) (cart_items (pizza_shop 10 [pizza_line 1 1 2]))"
    by (simp add: pizza_shop_def pizza_line_def)
  have h2: "1 \<le> cic_quantity two_pizzas"
    by (simp add: two_pizzas_def)
  show ?thesis
    using h1 h2 add_to_cart_fails_iff[OF h1 h2, of 1 5]
    by (simp add: pizza_shop_def pizza_line_def two_pizzas_def add_to_cart_def
          get_dish_by_id_def pizza_def update_cart_row_def)
qed

section \<open>Authentication\<close>

text \<open>
  C8. After any sequence of service calls on the empty database, \<^verbatim>\<open>authenticate_user\<close>
  returns a user for an email and a password exactly when an earlier \<^verbatim>\<open>register_user\<close>
  with this email and this password succeeded and created that user; otherwise (unknown
  email, wrong password) it returns nothing. No service alters a user row. The hypothesis
  is that the hash function does not map the supplied password and a different
  registered password to the same hash. Moreover, in every database, a successful
  registration stores the hash of the password, and authenticating right after it with
  the same email and password returns the registered user.
\<close>

theorem authenticate_iff_registered:
  assumes "\<forall>d n. RegisterUser d n \<in> set ops \<longrightarrow> hp (uc_password d) = hp pw \<longrightarrow> uc_password d = pw"
  shows "(authenticate_user hp (run hp ops) \<lparr>ul_email = e, ul_password = pw\<rparr> = Some usr \<longleftrightarrow>
            (\<exists>d. registered hp ops e usr d \<and> uc_password d = pw))
       \<and> (\<forall>s d n usr'. fst (register_user hp s d n) = Some usr' \<longrightarrow>
             u_password_hash usr' = hp (uc_password d) \<and>
             authenticate_user hp (snd (register_user hp s d n))
               \<lparr>ul_email = uc_email d, ul_password = uc_password d\<rparr> = Some usr')"
proof (intro conjI allI impI)
  show "authenticate_user hp (run hp ops) \<lparr>ul_email = e, ul_password = pw\<rparr> = Some usr \<longleftrightarrow>
            (\<exists>d. registered hp ops e usr d \<and> uc_password d = pw)"
  proof
    assume a: "authenticate_user hp (run hp ops) \<lparr>ul_email = e, ul_password = pw\<rparr> = Some usr"
    then have f: "find (\<lambda>u. u_email u = e) (users (run hp ops)) = Some usr"
      and h: "u_password_hash usr = hp pw"
      by (auto simp: authenticate_user_def split: option.splits if_splits)
    from f obtain d where d: "registered hp ops e usr d"
      by (auto simp: find_user_registered)
    from registered_hash[OF d] h assms have "uc_password d = pw" by metis
    with d show "\<exists>d. registered hp ops e usr d \<and> uc_password d = pw" by blast
  next
    assume "\<exists>d. registered hp ops e usr d \<and> uc_password d = pw"
    then obtain d where d: "registered hp ops e usr d" "uc_password d = pw" by blast
    then have "find (\<lambda>u. u_email u = e) (users (run hp ops)) = Some usr"
      by (auto simp: find_user_registered)
    moreover from registered_hash[OF d(1)] d(2) have "u_password_hash usr = hp pw" by simp
    ultimately show "authenticate_user hp (run hp ops) \<lparr>ul_email = e, ul_password = pw\<rparr> = Some usr"
      by (simp add: authenticate_user_def)
  qed
next
  fix s d n usr' assume "fst (register_user hp s d n) = Some usr'"
  from register_then_authenticate[OF this]
  show "u_password_hash usr' = hp (uc_password d)"
    and "authenticate_user hp (snd (register_user hp s d n))
               \<lparr>ul_email = uc_email d, ul_password = uc_password d\<rparr> = Some usr'"
    by simp_all
qed

theorem authenticate_iff_registered_witness:
  "authenticate_user demo_hash (run demo_hash [RegisterUser john 0])
        \<lparr>ul_email = ''john@example.com'', ul_password = ''password123''\<rparr>
      = Some \<lparr>u_id = 1, u_name = ''John Doe'', u_email = ''john@example.com'',
               u_password_hash = ''321drowssap'', u_phone = ''123-456-7890'', u_role = REGULAR,
               u_department_id = None, u_is_active = True, u_created_at = 0, u_updated_at = 0\<rparr>
   \<and> authenticate_user demo_hash (run demo_hash [RegisterUser john 0])
        \<lparr>ul_email = ''john@example.com'', ul_password = ''wrongpassword''\<rparr> = None"
proof -
  have h: "\<forall>d n. RegisterUser d n \<in> set [RegisterUser john 0] \<longrightarrow>
       demo_hash (uc_password d) = demo_hash ''password123'' \<longrightarrow> uc_password d = ''password123''"
    by (simp add: john_def)
  have r: "registered demo_hash [RegisterUser john 0] ''john@example.com''
      \<lparr>u_id = 1, u_name = ''John Doe'', u_email = ''john@example.com'',
               u_password_hash = ''321drowssap'', u_phone = ''123-456-7890'', u_role = REGULAR,
               u_department_id = None, u_is_active = True, u_created_at = 0, u_updated_at = 0\<rparr> john"
    unfolding registered_def
    by (intro exI[of _ 0]) (simp add: john_def run_def empty_db_def register_user_def next_id_def demo_hash_def Let_def)
  have "authenticate_user demo_hash (run demo_hash [RegisterUser john 0])
        \<lparr>ul_email = ''john@example.com'', ul_password = ''wrongpassword''\<rparr> = None"
    by (simp add: john_def run_def empty_db_def register_user_def next_id_def demo_hash_def authenticate_user_def Let_def)
  with h r authenticate_iff_registered[OF h, of "''john@example.com''"] show ?thesis
    by (auto simp: john_def)
qed

section \<open>Removing a cart row\<close>

text \<open>
  C9. \<^verbatim>\<open>remove_from_cart\<close>, as the specification describes it: when the user has a cart
  row with the given id, the call succeeds and the rows with that id are gone, all other
  rows and tables being unchanged, and a second call with the same id fails and changes
  nothing; when no cart row has the id, the call returns failure and the database is
  unchanged.
\<close>

theorem remove_from_cart_deletes_row:
  "((\<exists>c \<in> set (cart_items s). ci_id c = i \<and> ci_user_id c = u) \<longrightarrow>
      fst (remove_from_cart s u i) = True \<and>
      cart_items (snd (remove_from_cart s u i)) = filter (\<lambda>c. ci_id c \<noteq> i) (cart_items s) \<and>
      users (snd (remove_from_cart s u i)) = users s \<and>
      dishes (snd (remove_from_cart s u i)) = dishes s \<and>
      orders (snd (remove_from_cart s u i)) = orders s \<and>
      order_items (snd (remove_from_cart s u i)) = order_items s \<and>
      remove_from_cart (snd (remove_from_cart s u i)) u i = (False, snd (remove_from_cart s u i)))
   \<and> ((\<forall>c \<in> set (cart_items s). ci_id c \<noteq> i) \<longrightarrow> remove_from_cart s u i = (False, s))"
proof -
  let ?P = "\<lambda>c. ci_id c = i \<and> ci_user_id c = u"
  have none: "remove_from_cart t u i = (False, t)" if "\<forall>c \<in> set (cart_items t). ci_id c \<noteq> i" for t
  proof -
    from that have "find ?P (cart_items t) = None" by (auto simp: find_None_iff)
    then show ?thesis by (simp add: remove_from_cart_def)
  qed
  have some: "remove_from_cart s u i = (True, s\<lparr>cart_items := filter (\<lambda>c. ci_id c \<noteq> i) (cart_items s)\<rparr>)"
    if "\<exists>c \<in> set (cart_items s). ?P c"
  proof -
    from that obtain c where "find ?P (cart_items s) = Some c"
      by (cases "find ?P (cart_items s)") (auto simp: find_None_iff)
    moreover from this have "ci_id c = i" by (auto simp: find_Some_iff)
    ultimately show ?thesis by (simp add: remove_from_cart_def session_delete_def)
  qed
  show ?thesis
  proof (intro conjI impI)
    assume a: "\<exists>c \<in> set (cart_items s). ?P c"
    note r = some[OF a]
    show "fst (remove_from_cart s u i) = True" by (simp add: r)
    show "cart_items (snd (remove_from_cart s u i)) = filter (\<lambda>c. ci_id c \<noteq> i) (cart_items s)"
      by (simp add: r)
    show "users (snd (remove_from_cart s u i)) = users s" by (simp add: r)
    show "dishes (snd (remove_from_cart s u i)) = dishes s" by (simp add: r)
    show "orders (snd (remove_from_cart s u i)) = orders s" by (simp add: r)
    show "order_items (snd (remove_from_cart s u i)) = order_items s" by (simp add: r)
    show "remove_from_cart (snd (remove_from_cart s u i)) u i = (False, snd (remove_from_cart s u i))"
      by (rule none) (simp add: r)
  next
    assume "\<forall>c \<in> set (cart_items s). ci_id c \<noteq> i"
    then show "remove_from_cart s u i = (False, s)" by (rule none)
  qed
qed

theorem remove_from_cart_deletes_row_witness:
  "remove_from_cart (pizza_shop 10 [pizza_line 1 1 2, pizza_line 2 2 1]) 1 1
     = (True, pizza_shop 10 [pizza_line 2 2 1]) \<and>
   remove_from_cart (pizza_shop 10 [pizza_line 1 1 2, pizza_line 2 2 1]) 1 7
     = (False, pizza_shop 10 [pizza_line 1 1 2, pizza_line 2 2 1])"
  using remove_from_cart_deletes_row[of "pizza_shop 10 [pizza_line 1 1 2, pizza_line 2 2 1]" 1 1]
        remove_from_cart_deletes_row[of "pizza_shop 10 [pizza_line 1 1 2, pizza_line 2 2 1]" 7 1]
  by (simp add: pizza_shop_def pizza_line_def prod_eq_iff)

section \<open>Clearing the cart\<close>

text \<open>
  C10. \<^verbatim>\<open>clear_cart\<close> always returns \<^verbatim>\<open>True\<close>, also on an empty cart; afterwards the
  user has no cart rows; clearing twice gives the same database as clearing once; the
  other tables are untouched, and, the keys of the cart rows being unique, exactly the
  rows of the other users remain.
\<close>

theorem clear_cart_idempotent:
  "fst (clear_cart s u) = True \<and>
   get_cart_items (snd (clear_cart s u)) u = [] \<and>
   snd (clear_cart (snd (clear_cart s u)) u) = snd (clear_cart s u) \<and>
   users (snd (clear_cart s u)) = users s \<and>
   dishes (snd (clear_cart s u)) = dishes s \<and>
   orders (snd (clear_cart s u)) = orders s \<and>
   order_items (snd (clear_cart s u)) = order_items s \<and>
   (distinct (map ci_id (cart_items s)) \<longrightarrow>
      cart_items (snd (clear_cart s u)) = filter (\<lambda>c. ci_user_id c \<noteq> u) (cart_items s))"
proof -
  have "snd (clear_cart (snd (clear_cart s u)) u) = snd (clear_cart s u)"
    using clear_cart_empty[of s u] by (simp add: clear_cart_def[of "snd (clear_cart s u)"])
  moreover have "fst (clear_cart s u) = True"
    by (simp add: clear_cart_def)
  moreover have "users (snd (clear_cart s u)) = users s" "dishes (snd (clear_cart s u)) = dishes s"
    "orders (snd (clear_cart s u)) = orders s" "order_items (snd (clear_cart s u)) = order_items s"
    by (simp_all add: clear_cart_def fold_session_delete)
  ultimately show ?thesis
    using clear_cart_empty[of s u] clear_cart_rows[of s u] by simp
qed

theorem clear_cart_idempotent_witness:
  "distinct (map ci_id (cart_items (pizza_shop 10 [pizza_line 1 1 2, pizza_line 2 2 1]))) \<and>
   cart_items (snd (clear_cart (pizza_shop 10 [pizza_line 1 1 2, pizza_line 2 2 1]) 1))
     = [pizza_line 2 2 1]"
  using clear_cart_idempotent[of "pizza_shop 10 [pizza_line 1 1 2, pizza_line 2 2 1]" 1]
  by (simp add: pizza_shop_def pizza_line_def)

end
